theory Spec2Isabelle
  imports Complex_Main "HOL-Library.Word" "HOL-Library.Sublist" "HOL-Library.Multiset"
begin

section \<open>PixelSynth: constants and the instrument table\<close>

text \<open>
  The embedding follows \<^verbatim>\<open>src/App.py\<close>. Samples are numpy \<^verbatim>\<open>float64\<close> values in the
  source; here they are real numbers, so every statement about sample values is a statement
  about the exact arithmetic the floating-point code approximates. Integer quantities
  (sizes, indices, sample counts) are exact in both.
\<close>

datatype error = IndexError | ValueError

definition GRID_SIZE :: nat where "GRID_SIZE = 64"
definition PIXEL_ZOOM :: int where "PIXEL_ZOOM = 8"
definition BPM :: nat where "BPM = 120"
definition SAMPLE_RATE :: nat where "SAMPLE_RATE = 44100"
definition UI_HEIGHT :: int where "UI_HEIGHT = 110"
definition LOOP_LEN_SEC :: nat where "LOOP_LEN_SEC = 4"

text \<open>A cell of the grid is one RGB triple of \<^verbatim>\<open>uint8\<close> channels.\<close>

type_synonym color = "8 word \<times> 8 word \<times> 8 word"

text \<open>
  An entry of \<^verbatim>\<open>INSTRUMENTS\<close>: colour, name, shortcut key and glyph (the glyph is kept
  as its Unicode code point; it is only ever drawn).
\<close>

type_synonym instrument = "color \<times> string \<times> string \<times> nat"

definition INSTRUMENTS :: "instrument list" where
  "INSTRUMENTS =
    [((255, 80, 80), ''Kick'', ''1'', 0x1F534),
     ((80, 160, 255), ''Snare'', ''2'', 0x1F535),
     ((100, 220, 100), ''Hi-Hat'', ''3'', 0x1F7E2),
     ((255, 230, 100), ''Bass'', ''4'', 0x1F7E1),
     ((200, 120, 255), ''Lead'', ''5'', 0x1F7E3)]"

text \<open>
  \<^verbatim>\<open>COLOR_TO_IDX = {tuple(c): i for i, (c, *_) in enumerate(INSTRUMENTS)}\<close>: the
  comprehension stores the entries in order, a later one overwriting an earlier one with
  the same key.
\<close>

definition COLOR_TO_IDX :: "color \<rightharpoonup> nat" where
  "COLOR_TO_IDX =
     fold (\<lambda>(i, inst) m. m(fst inst \<mapsto> i)) (enumerate 0 INSTRUMENTS) Map.empty"

section \<open>The numpy operations the synthesizer uses\<close>

text \<open>
  The global numpy random generator is the sequence of values its \<^verbatim>\<open>random_sample()\<close>
  will return next, each in \<open>[0, 1)\<close>. \<^verbatim>\<open>np.random.uniform(low, high, n)\<close> consumes
  \<open>n\<close> of them and scales each to \<open>low + (high - low) * u\<close>.
\<close>

type_synonym np_rng = "nat \<Rightarrow> real"

definition np_random_uniform :: "real \<Rightarrow> real \<Rightarrow> nat \<Rightarrow> np_rng \<Rightarrow> real list \<times> np_rng" where
  "np_random_uniform low high n rng =
     (map (\<lambda>k. low + (high - low) * rng k) [0..<n], \<lambda>k. rng (n + k))"

text \<open>
  \<^verbatim>\<open>np.linspace(start, stop, num, endpoint=False)\<close>: \<open>num\<close> points
  \<open>start + i * ((stop - start) / num)\<close>.
\<close>

definition np_linspace_noend :: "real \<Rightarrow> real \<Rightarrow> nat \<Rightarrow> real list" where
  "np_linspace_noend start stop num =
     map (\<lambda>i. real i * ((stop - start) / real num) + start) [0..<num]"

text \<open>Elementwise arithmetic on arrays of one length, and a scalar times an array.\<close>

definition vmul :: "real list \<Rightarrow> real list \<Rightarrow> real list" where
  "vmul xs ys = map2 (*) xs ys"

definition vadd :: "real list \<Rightarrow> real list \<Rightarrow> real list" where
  "vadd xs ys = map2 (+) xs ys"

definition smul :: "real \<Rightarrow> real list \<Rightarrow> real list" where
  "smul c xs = map ((*) c) xs"

definition np_exp :: "real list \<Rightarrow> real list" where
  "np_exp xs = map exp xs"

definition np_sin :: "real list \<Rightarrow> real list" where
  "np_sin xs = map sin xs"

definition np_zeros :: "nat \<Rightarrow> real list" where
  "np_zeros n = replicate n 0"

section \<open>The audio engine\<close>

text \<open>
  \<^verbatim>\<open>synth_note(inst_idx, t)\<close>. The two noise instruments draw from the global
  generator, so the function takes the generator and returns it advanced.
\<close>

definition synth_note :: "nat \<Rightarrow> real list \<Rightarrow> np_rng \<Rightarrow> real list \<times> np_rng" where
  "synth_note inst_idx t rng =
     (if inst_idx = 0 then
        (let env = np_exp (smul (- 8) t)
         in (vmul (smul 0.8 env)
               (np_sin (vmul (smul (2 * pi * 55) (map (\<lambda>a. 1 - 0.5 * a) t)) t)), rng))
      else if inst_idx = 1 then
        (let env = np_exp (smul (- 12) t);
             (noise, rng') = np_random_uniform (- 1) 1 (length t) rng;
             tone = smul 0.3 (np_sin (smul (2 * pi * 220) t))
         in (vmul env (vadd (smul 0.7 noise) (smul 0.3 tone)), rng'))
      else if inst_idx = 2 then
        (let env = np_exp (smul (- 30) t);
             (noise, rng') = np_random_uniform (- 1) 1 (length t) rng
         in (vmul (smul 0.5 env) noise, rng'))
      else if inst_idx = 3 then
        (let env = np_exp (smul (- 4) t)
         in (vmul (smul 0.7 env) (np_sin (smul (2 * pi * 110) t)), rng))
      else if inst_idx = 4 then
        (let env = np_exp (smul (- 2) t);
             osc = vadd (vadd (np_sin (smul (2 * pi * 440) t))
                              (smul 0.5 (np_sin (smul (2 * pi * 660) t))))
                        (smul 0.3 (np_sin (smul (2 * pi * 880) t)))
         in (vmul (smul 0.5 env) osc, rng))
      else (np_zeros (length t), rng))"

text \<open>
  The grid is the \<^verbatim>\<open>(GRID_SIZE, GRID_SIZE, 3)\<close> array \<^verbatim>\<open>grid[y, x]\<close>: a list of rows.
\<close>

type_synonym grid_t = "color list list"

text \<open>
  The program's global state, as far as the grid and the audio engine read or write it:
  the grid, the selected instrument, the flags of the event loop and the two random
  generators (numpy's for the noise, Python's \<^verbatim>\<open>random\<close> for the mutation; the
  latter is the sequence of raw numbers it will produce next). Window, sound device,
  clock and files are outside the model.
\<close>

type_synonym py_rng = "nat \<Rightarrow> nat"

record world =
  grid :: grid_t
  current_color_idx :: int
  playing :: bool
  mouse_down :: bool
  mouse_button :: int
  fullscreen :: bool
  np_random :: np_rng
  py_random :: py_rng

text \<open>\<^verbatim>\<open>grid[y, x]\<close> for indices from \<^verbatim>\<open>range\<close>: out of range raises.\<close>

definition grid_get :: "grid_t \<Rightarrow> nat \<Rightarrow> nat \<Rightarrow> error + color" where
  "grid_get g y x =
     (if y < length g \<and> x < length (g ! y) then Inr (g ! y ! x) else Inl IndexError)"

text \<open>
  \<^verbatim>\<open>audio[start:stop] += vals\<close>: the slice is clipped to the array; the right-hand side
  must have the slice's length, or length one (it is then broadcast), otherwise numpy
  raises.
\<close>

definition slice_iadd :: "real list \<Rightarrow> nat \<Rightarrow> nat \<Rightarrow> real list \<Rightarrow> error + real list" where
  "slice_iadd audio start stop vals =
     (let s = min start (length audio);
          e = max s (min stop (length audio));
          part = take (e - s) (drop s audio)
      in if length vals = length part then
           Inr (take s audio @ vadd part vals @ drop e audio)
         else if length vals = 1 then
           Inr (take s audio @ map (\<lambda>a. a + hd vals) part @ drop e audio)
         else Inl ValueError)"

text \<open>The body of the two nested loops of \<^verbatim>\<open>grid_to_audio\<close>, for the cell \<open>(y, x)\<close>.\<close>

definition cell_body ::
    "nat \<Rightarrow> nat \<Rightarrow> nat \<Rightarrow> real list \<times> world \<Rightarrow> error + (real list \<times> world)" where
  "cell_body step_samples x y st =
     (case st of (audio, w) \<Rightarrow>
       (case grid_get (grid w) y x of
          Inl e \<Rightarrow> Inl e
        | Inr color \<Rightarrow>
           (case COLOR_TO_IDX color of
              None \<Rightarrow> Inr (audio, w)
            | Some inst_idx \<Rightarrow>
               (let t = np_linspace_noend 0 (real step_samples / real SAMPLE_RATE) step_samples;
                    (note, rng') = synth_note inst_idx t (np_random w);
                    start = x * step_samples;
                    stop = start + step_samples
                in case slice_iadd audio start stop
                          (take (min (length note) (stop - start)) note) of
                     Inl e \<Rightarrow> Inl e
                   | Inr audio' \<Rightarrow> Inr (audio', w\<lparr>np_random := rng'\<rparr>)))))"

text \<open>\<^verbatim>\<open>for y in range(GRID_SIZE)\<close>, over the rows still to visit.\<close>

fun loop_y ::
    "nat \<Rightarrow> nat \<Rightarrow> nat list \<Rightarrow> real list \<times> world \<Rightarrow> error + (real list \<times> world)" where
  "loop_y step_samples x [] st = Inr st"
| "loop_y step_samples x (y # ys) st =
     (case cell_body step_samples x y st of
        Inl e \<Rightarrow> Inl e
      | Inr st' \<Rightarrow> loop_y step_samples x ys st')"

text \<open>\<^verbatim>\<open>for x in range(steps)\<close>, over the columns still to visit.\<close>

fun loop_x ::
    "nat \<Rightarrow> nat list \<Rightarrow> real list \<times> world \<Rightarrow> error + (real list \<times> world)" where
  "loop_x step_samples [] st = Inr st"
| "loop_x step_samples (x # xs) st =
     (case loop_y step_samples x [0..<GRID_SIZE] st of
        Inl e \<Rightarrow> Inl e
      | Inr st' \<Rightarrow> loop_x step_samples xs st')"

text \<open>\<^verbatim>\<open>step_samples = SAMPLE_RATE * LOOP_LEN_SEC // steps\<close> with \<^verbatim>\<open>steps = GRID_SIZE\<close>.\<close>

definition step_samples :: nat where
  "step_samples = SAMPLE_RATE * LOOP_LEN_SEC div GRID_SIZE"

text \<open>
  \<^verbatim>\<open>grid_to_audio\<close> up to its \<^verbatim>\<open># Normalize\<close> comment: the buffer the loops leave
  (the pre-normalization buffer).
\<close>

definition render_raw :: "world \<Rightarrow> error + (real list \<times> world)" where
  "render_raw w =
     (let steps = GRID_SIZE;
          audio = np_zeros (LOOP_LEN_SEC * SAMPLE_RATE)
      in loop_x step_samples [0..<steps] (audio, w))"

text \<open>\<^verbatim>\<open>np.max(np.abs(audio))\<close>; numpy raises on an empty array.\<close>

definition peak :: "real list \<Rightarrow> real" where
  "peak audio = Max (set (map abs audio))"

definition normalize :: "real list \<Rightarrow> error + real list" where
  "normalize audio =
     (if audio = [] then Inl ValueError
      else Inr (map (\<lambda>a. a / (peak audio + 1 / 10 ^ 6)) audio))"

definition grid_to_audio :: "world \<Rightarrow> error + (real list \<times> world)" where
  "grid_to_audio w =
     (case render_raw w of
        Inl e \<Rightarrow> Inl e
      | Inr (audio, w') \<Rightarrow>
         (case normalize audio of
            Inl e \<Rightarrow> Inl e
          | Inr audio' \<Rightarrow> Inr (audio', w')))"

section \<open>The operations that write the grid\<close>

text \<open>
  Indexing a Python list or a numpy axis of length \<open>n\<close> with an integer: a negative
  index counts from the end, and an index outside \<open>[-n, n)\<close> raises.
\<close>

definition py_index :: "nat \<Rightarrow> int \<Rightarrow> error + nat" where
  "py_index n i =
     (if 0 \<le> i \<and> i < int n then Inr (nat i)
      else if - int n \<le> i \<and> i < 0 then Inr (nat (i + int n))
      else Inl IndexError)"

text \<open>\<^verbatim>\<open>INSTRUMENTS[i]\<close>.\<close>

definition instruments_get :: "int \<Rightarrow> error + instrument" where
  "instruments_get i =
     (case py_index (length INSTRUMENTS) i of
        Inl e \<Rightarrow> Inl e
      | Inr k \<Rightarrow> Inr (INSTRUMENTS ! k))"

text \<open>\<^verbatim>\<open>grid[y, x] = c\<close>.\<close>

definition grid_set :: "grid_t \<Rightarrow> int \<Rightarrow> int \<Rightarrow> color \<Rightarrow> error + grid_t" where
  "grid_set g y x c =
     (case py_index (length g) y of
        Inl e \<Rightarrow> Inl e
      | Inr yy \<Rightarrow>
         (case py_index (length (g ! yy)) x of
            Inl e \<Rightarrow> Inl e
          | Inr xx \<Rightarrow> Inr (g[yy := (g ! yy)[xx := c]])))"

text \<open>
  \<^verbatim>\<open>random.randint(a, b)\<close> maps the generator's next raw number into \<open>[a, b]\<close>;
  \<^verbatim>\<open>random.random()\<close> maps it to a multiple of \<open>2^-53\<close> in \<open>[0, 1)\<close>.
\<close>

definition py_randint :: "int \<Rightarrow> int \<Rightarrow> py_rng \<Rightarrow> int \<times> py_rng" where
  "py_randint a b rng = (a + int (rng 0 mod nat (b - a + 1)), \<lambda>k. rng (Suc k))"

definition py_random_random :: "py_rng \<Rightarrow> real \<times> py_rng" where
  "py_random_random rng = (real (rng 0 mod 2 ^ 53) / 2 ^ 53, \<lambda>k. rng (Suc k))"

text \<open>One iteration of the loop of \<^verbatim>\<open>mutate_grid\<close>.\<close>

definition mutate_step :: "world \<Rightarrow> error + world" where
  "mutate_step w =
     (let (x, r1) = py_randint 0 (int GRID_SIZE - 1) (py_random w);
          (y, r2) = py_randint 0 (int GRID_SIZE - 1) r1;
          (u, r3) = py_random_random r2
      in if u < 0.5 then
           (let (k, r4) = py_randint 0 4 r3
            in case instruments_get k of
                 Inl e \<Rightarrow> Inl e
               | Inr inst \<Rightarrow>
                  (case grid_set (grid w) y x (fst inst) of
                     Inl e \<Rightarrow> Inl e
                   | Inr g \<Rightarrow> Inr (w\<lparr>grid := g, py_random := r4\<rparr>)))
         else
           (case grid_get (grid w) (nat (x mod int GRID_SIZE)) (nat (y mod int GRID_SIZE)) of
              Inl e \<Rightarrow> Inl e
            | Inr c \<Rightarrow>
               (case grid_set (grid w) y x c of
                  Inl e \<Rightarrow> Inl e
                | Inr g \<Rightarrow> Inr (w\<lparr>grid := g, py_random := r3\<rparr>))))"

text \<open>A \<^verbatim>\<open>for _ in range(n)\<close> loop around a state transformer.\<close>

fun repeat :: "nat \<Rightarrow> (world \<Rightarrow> error + world) \<Rightarrow> world \<Rightarrow> error + world" where
  "repeat 0 f w = Inr w"
| "repeat (Suc n) f w = (case f w of Inl e \<Rightarrow> Inl e | Inr w' \<Rightarrow> repeat n f w')"

definition mutate_grid :: "world \<Rightarrow> error + world" where
  "mutate_grid w = repeat (GRID_SIZE * GRID_SIZE div 10) mutate_step w"

text \<open>
  \<^verbatim>\<open>save_gif\<close>: eight frames, a \<^verbatim>\<open>mutate_grid()\<close> after each (the image file is outside
  the model).
\<close>

definition save_gif :: "world \<Rightarrow> error + world" where
  "save_gif w = repeat 8 mutate_grid w"

text \<open>\<^verbatim>\<open>save_snapshot\<close>: renders the grid (the files are outside the model).\<close>

definition save_snapshot :: "world \<Rightarrow> error + world" where
  "save_snapshot w =
     (case grid_to_audio w of Inl e \<Rightarrow> Inl e | Inr (audio, w') \<Rightarrow> Inr w')"

text \<open>
  \<^verbatim>\<open>int(s)\<close> for the strings the event loop passes to it, the substrings of
  \<^verbatim>\<open>"12345"\<close>: the decimal value, and \<^verbatim>\<open>ValueError\<close> for the empty string.
\<close>

definition digit_val :: "char \<Rightarrow> int" where
  "digit_val c = int (of_char c :: nat) - 48"

definition py_int :: "string \<Rightarrow> error + int" where
  "py_int s =
     (if s = [] \<or> \<not> list_all (\<lambda>c. 48 \<le> (of_char c :: nat) \<and> (of_char c :: nat) \<le> 57) s
      then Inl ValueError
      else Inr (foldl (\<lambda>acc c. 10 * acc + digit_val c) 0 s))"

datatype key = K_ESCAPE | K_SPACE | K_s | K_m | K_r | K_t | K_f | K_g | K_OTHER

text \<open>
  The events the main loop looks at: \<^verbatim>\<open>KEYDOWN\<close> with \<^verbatim>\<open>event.key\<close> and
  \<^verbatim>\<open>event.unicode\<close>, \<^verbatim>\<open>MOUSEBUTTONDOWN\<close> with \<^verbatim>\<open>event.button\<close> and \<^verbatim>\<open>event.pos\<close>,
  \<^verbatim>\<open>MOUSEMOTION\<close> with \<^verbatim>\<open>event.pos\<close>.
\<close>

datatype event =
    QUIT
  | KEYDOWN key string
  | MOUSEBUTTONDOWN int "int \<times> int"
  | MOUSEBUTTONUP
  | MOUSEMOTION "int \<times> int"
  | OTHER_EVENT

text \<open>How handling an event can end other than by going on: the program exits, or raises.\<close>

datatype stop = Exited | Raised error

definition raising :: "error + world \<Rightarrow> stop + world" where
  "raising r = (case r of Inl e \<Rightarrow> Inl (Raised e) | Inr w \<Rightarrow> Inr w)"

text \<open>
  The paint and erase code shared by \<^verbatim>\<open>MOUSEBUTTONDOWN\<close> and \<^verbatim>\<open>MOUSEMOTION\<close>: the
  cell under the mouse, when inside the grid, gets the selected instrument's colour on
  the left button and the background on the right button.
\<close>

definition paint_at :: "world \<Rightarrow> int \<times> int \<Rightarrow> error + world" where
  "paint_at w pos =
     (case pos of (mx, my) \<Rightarrow>
       (let gx = mx div PIXEL_ZOOM;
            gy = (my - UI_HEIGHT) div PIXEL_ZOOM
        in if 0 \<le> gx \<and> gx < int GRID_SIZE \<and> 0 \<le> gy \<and> gy < int GRID_SIZE then
             (if mouse_button w = 1 then
                (case instruments_get (current_color_idx w) of
                   Inl e \<Rightarrow> Inl e
                 | Inr inst \<Rightarrow>
                    (case grid_set (grid w) gy gx (fst inst) of
                       Inl e \<Rightarrow> Inl e
                     | Inr g \<Rightarrow> Inr (w\<lparr>grid := g\<rparr>)))
              else if mouse_button w = 3 then
                (case grid_set (grid w) gy gx (0, 0, 0) of
                   Inl e \<Rightarrow> Inl e
                 | Inr g \<Rightarrow> Inr (w\<lparr>grid := g\<rparr>))
              else Inr w)
           else Inr w))"

text \<open>The body of \<^verbatim>\<open>for event in pygame.event.get()\<close>.\<close>

fun handle_event :: "world \<Rightarrow> event \<Rightarrow> stop + world" where
  "handle_event w QUIT = Inl Exited"
| "handle_event w (KEYDOWN k unicode) =
     (if k = K_ESCAPE then Inl Exited
      else if k = K_SPACE then
        (let w1 = w\<lparr>playing := \<not> playing w\<rparr>
         in if playing w1 then
              raising (case grid_to_audio w1 of Inl e \<Rightarrow> Inl e | Inr (audio, w2) \<Rightarrow> Inr w2)
            else Inr w1)
      else if k = K_s then raising (save_snapshot w)
      else if k = K_m then raising (mutate_grid w)
      else if k = K_r then Inr (w\<lparr>grid := map (map (\<lambda>c. (0, 0, 0))) (grid w)\<rparr>)
      else if k = K_t then
        raising (case grid_to_audio w of Inl e \<Rightarrow> Inl e | Inr (audio, w2) \<Rightarrow> Inr w2)
      else if k = K_f then Inr (w\<lparr>fullscreen := \<not> fullscreen w\<rparr>)
      else if k = K_g then raising (save_gif w)
      else if sublist unicode ''12345'' then
        (case py_int unicode of
           Inl e \<Rightarrow> Inl (Raised e)
         | Inr n \<Rightarrow> Inr (w\<lparr>current_color_idx := n - 1\<rparr>))
      else Inr w)"
| "handle_event w (MOUSEBUTTONDOWN button pos) =
     (let w1 = w\<lparr>mouse_down := True, mouse_button := button\<rparr>
      in case paint_at w1 pos of
           Inl e \<Rightarrow> Inl (Raised e)
         | Inr w2 \<Rightarrow>
            (if button = 4 then
               Inr (w2\<lparr>current_color_idx := (current_color_idx w2 - 1) mod int (length INSTRUMENTS)\<rparr>)
             else if button = 5 then
               Inr (w2\<lparr>current_color_idx := (current_color_idx w2 + 1) mod int (length INSTRUMENTS)\<rparr>)
             else Inr w2))"
| "handle_event w MOUSEBUTTONUP = Inr (w\<lparr>mouse_down := False\<rparr>)"
| "handle_event w (MOUSEMOTION pos) =
     (if mouse_down w then raising (paint_at w pos) else Inr w)"
| "handle_event w OTHER_EVENT = Inr w"

text \<open>The events of a session, one after the other, until the program stops.\<close>

fun run_events :: "world \<Rightarrow> event list \<Rightarrow> stop + world" where
  "run_events w [] = Inr w"
| "run_events w (e # es) =
     (case handle_event w e of Inl s \<Rightarrow> Inl s | Inr w' \<Rightarrow> run_events w' es)"

section \<open>Notions used to state the properties\<close>

text \<open>The grid has the shape the program allocates: \<open>GRID_SIZE\<close> rows of \<open>GRID_SIZE\<close> cells.\<close>

definition wf_grid :: "grid_t \<Rightarrow> bool" where
  "wf_grid g \<longleftrightarrow> length g = GRID_SIZE \<and> list_all (\<lambda>row. length row = GRID_SIZE) g"

text \<open>A colour of the palette: a registered instrument colour or the background.\<close>

definition palette_color :: "color \<Rightarrow> bool" where
  "palette_color c \<longleftrightarrow> c \<in> set (map fst INSTRUMENTS) \<or> c = (0, 0, 0)"

text \<open>Every cell of the grid carries a colour of the palette.\<close>

definition palette_grid :: "grid_t \<Rightarrow> bool" where
  "palette_grid g \<longleftrightarrow> list_all (list_all palette_color) g"

text \<open>The invariant of the grid: the allocated shape, and palette colours only.\<close>

definition grid_inv :: "world \<Rightarrow> bool" where
  "grid_inv w \<longleftrightarrow> palette_grid (grid w) \<and> wf_grid (grid w)"

text \<open>The local time array of one note.\<close>

definition note_times :: "real list" where
  "note_times = np_linspace_noend 0 (real step_samples / real SAMPLE_RATE) step_samples"

text \<open>
  What one cell of colour \<open>c\<close> adds to its column's window, and the generator it leaves:
  its instrument's note, or nothing when the colour is not registered.
\<close>

definition cell_note :: "color \<Rightarrow> np_rng \<Rightarrow> real list \<times> np_rng" where
  "cell_note c rng =
     (case COLOR_TO_IDX c of
        None \<Rightarrow> (np_zeros step_samples, rng)
      | Some inst_idx \<Rightarrow> synth_note inst_idx note_times rng)"

text \<open>The sum of the notes of a column's cells, top row first, threading the generator.\<close>

fun col_sum :: "color list \<Rightarrow> np_rng \<Rightarrow> real list \<times> np_rng" where
  "col_sum [] rng = (np_zeros step_samples, rng)"
| "col_sum (c # cs) rng =
     (let (n, rng1) = cell_note c rng;
          (s, rng2) = col_sum cs rng1
      in (vadd n s, rng2))"

text \<open>Column \<open>x\<close> of the grid restricted to the rows \<open>ys\<close>.\<close>

definition column :: "grid_t \<Rightarrow> nat \<Rightarrow> nat list \<Rightarrow> color list" where
  "column g x ys = map (\<lambda>y. g ! y ! x) ys"

text \<open>The column sums of the columns \<open>xs\<close>, left to right, threading the generator.\<close>

fun col_sums :: "grid_t \<Rightarrow> nat list \<Rightarrow> np_rng \<Rightarrow> real list list \<times> np_rng" where
  "col_sums g [] rng = ([], rng)"
| "col_sums g (x # xs) rng =
     (let (s, rng1) = col_sum (column g x [0..<GRID_SIZE]) rng;
          (ss, rng2) = col_sums g xs rng1
      in (s # ss, rng2))"

text \<open>Adding \<open>vals\<close> into the window of \<open>audio\<close> that starts at \<open>start\<close>.\<close>

definition window_add :: "real list \<Rightarrow> nat \<Rightarrow> real list \<Rightarrow> real list" where
  "window_add audio start vals =
     take start audio @ vadd (take (length vals) (drop start audio)) vals
       @ drop (start + length vals) audio"

text \<open>
  The Snare shape as the specification words it: the envelope times a blend of 70 percent
  noise and 30 percent of a sine at 220 Hz.
\<close>

definition snare_spec :: "real list \<Rightarrow> real list \<Rightarrow> real list" where
  "snare_spec t noise =
     map2 (\<lambda>a n. exp (- 12 * a) * (0.7 * n + 0.3 * sin (2 * pi * 220 * a))) t noise"

text \<open>The Snare shape of the code: the sine enters with weight \<open>0.3 * 0.3\<close>.\<close>

definition snare_code :: "real list \<Rightarrow> real list \<Rightarrow> real list" where
  "snare_code t noise =
     map2 (\<lambda>a n. exp (- 12 * a) * (0.7 * n + 0.09 * sin (2 * pi * 220 * a))) t noise"

text \<open>A generator whose every draw is one half: \<open>uniform(-1, 1)\<close> then returns 0.\<close>

definition rng_half :: np_rng where
  "rng_half = (\<lambda>k. 1 / 2)"

text \<open>
  The pre-normalization buffer, sample by sample: sample \<open>i\<close> of a step window is the
  sum of the notes of that window's column; the samples past the last window are zero.
\<close>

definition raw_buffer :: "grid_t \<Rightarrow> np_rng \<Rightarrow> real list" where
  "raw_buffer g rng =
     map (\<lambda>i. if i < GRID_SIZE * step_samples
              then fst (col_sums g [0..<GRID_SIZE] rng) ! (i div step_samples) ! (i mod step_samples)
              else 0)
       [0..<LOOP_LEN_SEC * SAMPLE_RATE]"

text \<open>The generator after a render: every noise cell has drawn its samples.\<close>

definition rng_after :: "grid_t \<Rightarrow> np_rng \<Rightarrow> np_rng" where
  "rng_after g rng = snd (col_sums g [0..<GRID_SIZE] rng)"

text \<open>
  The generator as the loops find it on reaching the cell \<open>(y, x)\<close>: the noise cells of
  the columns before \<open>x\<close>, and of the rows before \<open>y\<close> in column \<open>x\<close>, have drawn their
  samples.
\<close>

definition rng_at :: "grid_t \<Rightarrow> np_rng \<Rightarrow> nat \<Rightarrow> nat \<Rightarrow> np_rng" where
  "rng_at g rng x y = snd (col_sum (column g x [0..<y]) (snd (col_sums g [0..<x] rng)))"

text \<open>The note the render generates for the cell \<open>(y, x)\<close>.\<close>

definition note_of_cell :: "grid_t \<Rightarrow> np_rng \<Rightarrow> nat \<Rightarrow> nat \<Rightarrow> real list" where
  "note_of_cell g rng y x = fst (cell_note (g ! y ! x) (rng_at g rng x y))"

text \<open>The colours of the instrument table, by name.\<close>

definition kick_color :: color where "kick_color = (255, 80, 80)"
definition snare_color :: color where "snare_color = (80, 160, 255)"
definition hihat_color :: color where "hihat_color = (100, 220, 100)"
definition bass_color :: color where "bass_color = (255, 230, 100)"
definition lead_color :: color where "lead_color = (200, 120, 255)"

text \<open>No cell outside the listed positions \<open>(y, x)\<close> carries a registered colour.\<close>

definition unmatched_except :: "grid_t \<Rightarrow> (nat \<times> nat) list \<Rightarrow> bool" where
  "unmatched_except g cells \<longleftrightarrow>
     (\<forall>y < GRID_SIZE. \<forall>x < GRID_SIZE. (y, x) \<notin> set cells \<longrightarrow> COLOR_TO_IDX (g ! y ! x) = None)"

text \<open>No cell carries the colour of a noise instrument (Snare, Hi-Hat).\<close>

definition no_noise_cells :: "grid_t \<Rightarrow> bool" where
  "no_noise_cells g \<longleftrightarrow>
     (\<forall>y < GRID_SIZE. \<forall>x < GRID_SIZE. g ! y ! x \<noteq> snare_color \<and> g ! y ! x \<noteq> hihat_color)"

text \<open>Two grids whose columns hold the same colours, up to the order of the rows.\<close>

definition same_columns :: "grid_t \<Rightarrow> grid_t \<Rightarrow> bool" where
  "same_columns g h \<longleftrightarrow>
     (\<forall>x < GRID_SIZE. mset (column g x [0..<GRID_SIZE]) = mset (column h x [0..<GRID_SIZE]))"

text \<open>Some column holds a registered cell and no Snare- or Hi-Hat-coloured cell.\<close>

definition noise_free_registered_column :: "grid_t \<Rightarrow> bool" where
  "noise_free_registered_column g \<longleftrightarrow>
     (\<exists>x < GRID_SIZE.
        (\<forall>y < GRID_SIZE. g ! y ! x \<noteq> snare_color \<and> g ! y ! x \<noteq> hihat_color)
        \<and> (\<exists>y < GRID_SIZE. COLOR_TO_IDX (g ! y ! x) \<noteq> None))"

text \<open>The peak of the buffer a render returns, when it returns.\<close>

definition render_peak :: "world \<Rightarrow> real option" where
  "render_peak w =
     (case grid_to_audio w of Inl e \<Rightarrow> None | Inr (audio, w') \<Rightarrow> Some (peak audio))"

text \<open>The note of a cell that draws no noise.\<close>

definition det_note :: "color \<Rightarrow> real list" where
  "det_note c = fst (cell_note c (\<lambda>k. 0))"

text \<open>The Kick formula of the specification at local time \<open>t\<close>.\<close>

definition kick_spec :: "real \<Rightarrow> real" where
  "kick_spec t = 0.8 * exp (- 8 * t) * sin (2 * pi * 55 * (1 - 0.5 * t) * t)"

text \<open>The Bass and Lead formulas at local time \<open>t\<close>.\<close>

definition bass_spec :: "real \<Rightarrow> real" where
  "bass_spec t = 0.7 * exp (- 4 * t) * sin (2 * pi * 110 * t)"

definition lead_spec :: "real \<Rightarrow> real" where
  "lead_spec t =
     0.5 * exp (- 2 * t)
       * (sin (2 * pi * 440 * t) + 0.5 * sin (2 * pi * 660 * t) + 0.3 * sin (2 * pi * 880 * t))"

text \<open>Some cell of the grid carries a registered instrument colour.\<close>

definition has_registered :: "grid_t \<Rightarrow> bool" where
  "has_registered g \<longleftrightarrow>
     (\<exists>y < GRID_SIZE. \<exists>x < GRID_SIZE. COLOR_TO_IDX (g ! y ! x) \<noteq> None)"

text \<open>\<^verbatim>\<open>grid = np.zeros((GRID_SIZE, GRID_SIZE, 3), dtype=np.uint8)\<close>.\<close>

definition initial_grid :: grid_t where
  "initial_grid = replicate GRID_SIZE (replicate GRID_SIZE (0, 0, 0))"

text \<open>The grid after \<^verbatim>\<open>grid[y, x] = c\<close> with both indices in range.\<close>

definition grid_put :: "grid_t \<Rightarrow> nat \<Rightarrow> nat \<Rightarrow> color \<Rightarrow> grid_t" where
  "grid_put g y x c = g[y := (g ! y)[x := c]]"

text \<open>The state of the program at start-up, for given generators.\<close>

definition initial_world :: "np_rng \<Rightarrow> py_rng \<Rightarrow> world" where
  "initial_world npr pyr =
     \<lparr>grid = initial_grid, current_color_idx = 0, playing = False, mouse_down = False,
      mouse_button = 1, fullscreen = False, np_random = npr, py_random = pyr\<rparr>"

definition py_zero :: py_rng where
  "py_zero = (\<lambda>k. 0)"

text \<open>A start-up state whose top-left cell has been painted with the Hi-Hat colour.\<close>

definition hihat_world :: world where
  "hihat_world = (initial_world rng_half py_zero)\<lparr>grid := grid_put initial_grid 0 0 hihat_color\<rparr>"

text \<open>A start-up state in which the cell of row 3, column 0 carries the Kick colour.\<close>

definition kick_world :: world where
  "kick_world = (initial_world rng_half py_zero)\<lparr>grid := grid_put initial_grid 3 0 kick_color\<rparr>"

definition rng_zero :: np_rng where
  "rng_zero = (\<lambda>k. 0)"

text \<open>
  The state \<open>kick_world\<close> with a Hi-Hat-coloured cell added in row 0, column 5, and any
  generator.
\<close>

definition kick_hihat_world :: "np_rng \<Rightarrow> world" where
  "kick_hihat_world rng =
     kick_world\<lparr>grid := grid_put (grid_put initial_grid 3 0 kick_color) 0 5 hihat_color,
                np_random := rng\<rparr>"

text \<open>The same with the Kick cell in row 5 instead.\<close>

definition kick_world_row5 :: world where
  "kick_world_row5 = (initial_world rng_half py_zero)\<lparr>grid := grid_put initial_grid 5 0 kick_color\<rparr>"

text \<open>
  A short session from start-up: a left click on the cell of row 1, column 1 (the pixel
  \<open>(8, 118)\<close>), the release, and a right click on the same cell; and the states after the
  first click and at the end.
\<close>

definition click_session :: "event list" where
  "click_session = [MOUSEBUTTONDOWN 1 (8, 118), MOUSEBUTTONUP, MOUSEBUTTONDOWN 3 (8, 118)]"

definition painted_world :: world where
  "painted_world =
     (initial_world rng_half py_zero)
       \<lparr>grid := grid_put initial_grid 1 1 kick_color, mouse_down := True, mouse_button := 1\<rparr>"

definition erased_world :: world where
  "erased_world =
     (initial_world rng_half py_zero)
       \<lparr>grid := grid_put (grid_put initial_grid 1 1 kick_color) 1 1 (0, 0, 0),
        mouse_down := True, mouse_button := 3\<rparr>"

section \<open>Properties of the note shapes\<close>

lemma length_np_random_uniform [simp]:
  "length (fst (np_random_uniform low high n rng)) = n"
  by (simp add: np_random_uniform_def)

lemma nth_np_random_uniform:
  "k < n \<Longrightarrow> fst (np_random_uniform low high n rng) ! k = low + (high - low) * rng k"
  by (simp add: np_random_uniform_def)

lemma length_synth_note [simp]: "length (fst (synth_note inst_idx t rng)) = length t"
  by (simp add: synth_note_def Let_def vmul_def vadd_def smul_def np_exp_def np_sin_def
      np_zeros_def split_def)

text \<open>
  C1 (as the code has it). For every time array and generator, the Snare note is
  \<open>exp (-12 t)\<close> times \<open>0.7 * noise + 0.09 * sin (2 pi 220 t)\<close>, where \<open>noise\<close> is the
  array \<open>uniform(-1, 1)\<close> draws; the noise lies in \<open>[-1, 1)\<close> when the generator's raw
  draws lie in \<open>[0, 1)\<close>.
\<close>

theorem snare_shape:
  "fst (synth_note 1 t rng) = snare_code t (fst (np_random_uniform (- 1) 1 (length t) rng))
   \<and> ((\<forall>k. 0 \<le> rng k \<and> rng k < 1) \<longrightarrow>
        (\<forall>n \<in> set (fst (np_random_uniform (- 1) 1 (length t) rng)). - 1 \<le> n \<and> n < 1))"
proof
  show "fst (synth_note 1 t rng)
          = snare_code t (fst (np_random_uniform (- 1) 1 (length t) rng))"
    by (rule nth_equalityI)
      (simp_all add: synth_note_def snare_code_def Let_def split_def vmul_def vadd_def
        smul_def np_exp_def np_sin_def algebra_simps)
next
  show "(\<forall>k. 0 \<le> rng k \<and> rng k < 1) \<longrightarrow>
        (\<forall>n \<in> set (fst (np_random_uniform (- 1) 1 (length t) rng)). - 1 \<le> n \<and> n < 1)"
  proof (intro impI ballI)
    fix n
    assume r: "\<forall>k. 0 \<le> rng k \<and> rng k < 1"
      and "n \<in> set (fst (np_random_uniform (- 1) 1 (length t) rng))"
    then obtain k where "n = - 1 + (1 - (- 1)) * rng k"
      by (auto simp: np_random_uniform_def)
    moreover have "0 \<le> rng k" "rng k < 1" using r by auto
    ultimately show "- 1 \<le> n \<and> n < 1" by simp
  qed
qed

theorem snare_shape_witness:
  "(\<forall>k. 0 \<le> rng_half k \<and> rng_half k < 1)
   \<and> fst (synth_note 1 [1 / 880] rng_half)
       = snare_code [1 / 880] (fst (np_random_uniform (- 1) 1 (length [1 / 880 :: real]) rng_half))
   \<and> - 1 \<le> hd (fst (np_random_uniform (- 1) 1 (length [1 / 880 :: real]) rng_half))
   \<and> hd (fst (np_random_uniform (- 1) 1 (length [1 / 880 :: real]) rng_half)) < 1"
proof -
  have h: "\<forall>k. 0 \<le> rng_half k \<and> rng_half k < 1"
    by (simp add: rng_half_def)
  have m: "hd (fst (np_random_uniform (- 1) 1 (length [1 / 880 :: real]) rng_half))
             \<in> set (fst (np_random_uniform (- 1) 1 (length [1 / 880 :: real]) rng_half))"
    by (simp add: np_random_uniform_def)
  show ?thesis
    using h m snare_shape [of "[1 / 880]" rng_half] by blast
qed

text \<open>
  C1 (as the specification words it) fails: at the single time \<open>t = 1/880\<close>, where the
  220 Hz sine is at its peak, and a noise draw of 0, the code's Snare sample is
  \<open>0.09 * exp (-12/880)\<close>, not \<open>0.3 * exp (-12/880)\<close>.
\<close>

theorem snare_weight_counterexample:
  "fst (synth_note 1 [1 / 880] rng_half)
     \<noteq> snare_spec [1 / 880] (fst (np_random_uniform (- 1) 1 1 rng_half))"
proof -
  have s: "sin (2 * pi * 220 * (1 / 880)) = 1"
    by simp
  have s': "sin (2 * pi * 220 / 880) = 1"
    using s by simp
  have "fst (synth_note 1 [1 / 880] rng_half) = [exp (- 12 * (1 / 880)) * 0.09]"
    using s' by (simp add: synth_note_def Let_def split_def vmul_def vadd_def smul_def
        np_exp_def np_sin_def np_random_uniform_def rng_half_def)
  moreover have "snare_spec [1 / 880] (fst (np_random_uniform (- 1) 1 1 rng_half))
                   = [exp (- 12 * (1 / 880)) * 0.3]"
    using s' by (simp add: snare_spec_def np_random_uniform_def rng_half_def)
  ultimately show ?thesis
    by simp
qed

section \<open>The render loop\<close>


lemma COLOR_TO_IDX_eq:
  "COLOR_TO_IDX c =
     (if c = (200, 120, 255) then Some 4
      else if c = (255, 230, 100) then Some 3
      else if c = (100, 220, 100) then Some 2
      else if c = (80, 160, 255) then Some 1
      else if c = (255, 80, 80) then Some 0
      else None)"
  by (simp add: COLOR_TO_IDX_def INSTRUMENTS_def enumerate_eq_zip upt_rec)

lemma step_samples_eq: "step_samples = 2756"
  by (simp add: step_samples_def SAMPLE_RATE_def LOOP_LEN_SEC_def GRID_SIZE_def)

lemma windows_fit: "GRID_SIZE * step_samples \<le> LOOP_LEN_SEC * SAMPLE_RATE"
  by (simp add: step_samples_def SAMPLE_RATE_def LOOP_LEN_SEC_def GRID_SIZE_def)

lemma length_vadd [simp]: "length (vadd xs ys) = min (length xs) (length ys)"
  by (simp add: vadd_def)

lemma nth_vadd: "i < length xs \<Longrightarrow> i < length ys \<Longrightarrow> vadd xs ys ! i = xs ! i + ys ! i"
  by (simp add: vadd_def)

lemma length_window_add:
  "start + length vals \<le> length audio \<Longrightarrow> length (window_add audio start vals) = length audio"
  by (simp add: window_add_def)

lemma nth_window_add:
  assumes "start + length vals \<le> length audio" "i < length audio"
  shows "window_add audio start vals ! i =
           (if start \<le> i \<and> i < start + length vals then audio ! i + vals ! (i - start)
            else audio ! i)"
  using assms
  by (auto simp: window_add_def nth_append nth_vadd min_def)

lemma slice_iadd_window:
  assumes "start + length vals \<le> length audio"
  shows "slice_iadd audio start (start + length vals) vals = Inr (window_add audio start vals)"
proof -
  have s: "min start (length audio) = start"
    using assms by simp
  have e: "max start (min (start + length vals) (length audio)) = start + length vals"
    using assms by simp
  have p: "length (take (start + length vals - start) (drop start audio)) = length vals"
    using assms by simp
  show ?thesis
    unfolding slice_iadd_def Let_def s e using p
    by (simp add: window_add_def)
qed


lemma length_note_times [simp]: "length note_times = step_samples"
  by (simp add: note_times_def np_linspace_noend_def)

lemma length_cell_note [simp]: "length (fst (cell_note c rng)) = step_samples"
  by (simp add: cell_note_def np_zeros_def split: option.splits)

lemma length_col_sum [simp]: "length (fst (col_sum cs rng)) = step_samples"
  by (induction cs arbitrary: rng) (simp_all add: np_zeros_def split_def Let_def)

lemma window_add_zeros:
  assumes "start + n \<le> length audio"
  shows "window_add audio start (np_zeros n) = audio"
proof (rule nth_equalityI)
  show "length (window_add audio start (np_zeros n)) = length audio"
    using assms by (simp add: length_window_add np_zeros_def)
next
  fix i assume "i < length (window_add audio start (np_zeros n))"
  then have "i < length audio"
    using assms by (simp add: length_window_add np_zeros_def)
  then show "window_add audio start (np_zeros n) ! i = audio ! i"
    using assms by (auto simp: nth_window_add np_zeros_def)
qed

lemma window_add_twice:
  assumes "start + length n \<le> length audio" "length m = length n"
  shows "window_add (window_add audio start n) start m = window_add audio start (vadd n m)"
proof (rule nth_equalityI)
  show "length (window_add (window_add audio start n) start m)
          = length (window_add audio start (vadd n m))"
    using assms by (simp add: length_window_add)
next
  fix i assume "i < length (window_add (window_add audio start n) start m)"
  then have i: "i < length audio"
    using assms by (simp add: length_window_add)
  show "window_add (window_add audio start n) start m ! i
          = window_add audio start (vadd n m) ! i"
    using assms i by (auto simp: nth_window_add length_window_add nth_vadd)
qed

lemma wf_grid_nth:
  "wf_grid g \<Longrightarrow> y < GRID_SIZE \<Longrightarrow> x < GRID_SIZE \<Longrightarrow> grid_get g y x = Inr (g ! y ! x)"
  by (simp add: wf_grid_def grid_get_def list_all_length)

lemma cell_body_eq:
  assumes "wf_grid (grid w)" "x < GRID_SIZE" "y < GRID_SIZE"
    and "x * step_samples + step_samples \<le> length audio"
  shows "cell_body step_samples x y (audio, w) =
           Inr (window_add audio (x * step_samples) (fst (cell_note (grid w ! y ! x) (np_random w))),
                w\<lparr>np_random := snd (cell_note (grid w ! y ! x) (np_random w))\<rparr>)"
proof (cases "COLOR_TO_IDX (grid w ! y ! x)")
  case None
  then show ?thesis
    using assms by (simp add: cell_body_def wf_grid_nth cell_note_def window_add_zeros)
next
  case (Some inst_idx)
  let ?note = "fst (synth_note inst_idx note_times (np_random w))"
  have len: "length ?note = step_samples" by simp
  have "slice_iadd audio (x * step_samples) (x * step_samples + length ?note) ?note
          = Inr (window_add audio (x * step_samples) ?note)"
    by (rule slice_iadd_window) (use assms len in simp)
  then show ?thesis
    using assms Some len
    by (simp add: cell_body_def wf_grid_nth cell_note_def split_def Let_def
        note_times_def [symmetric])
qed

lemma loop_y_eq:
  assumes "wf_grid (grid w)" "x < GRID_SIZE" "list_all (\<lambda>y. y < GRID_SIZE) ys"
    and "x * step_samples + step_samples \<le> length audio"
  shows "loop_y step_samples x ys (audio, w) =
           Inr (window_add audio (x * step_samples)
                  (fst (col_sum (column (grid w) x ys) (np_random w))),
                w\<lparr>np_random := snd (col_sum (column (grid w) x ys) (np_random w))\<rparr>)"
  using assms
proof (induction ys arbitrary: audio w)
  case Nil
  then show ?case
    by (simp add: column_def window_add_zeros)
next
  case (Cons y ys)
  let ?c = "grid w ! y ! x"
  let ?n = "fst (cell_note ?c (np_random w))"
  let ?w1 = "w\<lparr>np_random := snd (cell_note ?c (np_random w))\<rparr>"
  let ?a1 = "window_add audio (x * step_samples) ?n"
  have y: "y < GRID_SIZE" and ys: "list_all (\<lambda>y. y < GRID_SIZE) ys"
    using Cons.prems(3) by simp_all
  have step: "cell_body step_samples x y (audio, w) = Inr (?a1, ?w1)"
    using Cons.prems y by (simp add: cell_body_eq)
  have len1: "x * step_samples + step_samples \<le> length ?a1"
    using Cons.prems(4) by (simp add: length_window_add)
  have rest: "loop_y step_samples x ys (?a1, ?w1) =
      Inr (window_add ?a1 (x * step_samples)
             (fst (col_sum (column (grid ?w1) x ys) (np_random ?w1))),
           ?w1\<lparr>np_random := snd (col_sum (column (grid ?w1) x ys) (np_random ?w1))\<rparr>)"
    by (rule Cons.IH) (use Cons.prems ys len1 in simp_all)
  have tw: "window_add ?a1 (x * step_samples) m = window_add audio (x * step_samples) (vadd ?n m)"
    if "length m = step_samples" for m
    by (rule window_add_twice) (use Cons.prems(4) that in simp_all)
  show ?case
    using step rest by (simp add: column_def split_def Let_def tw)
qed


lemma loop_x_snoc:
  "loop_x n (xs @ [x]) st =
     (case loop_x n xs st of Inl e \<Rightarrow> Inl e | Inr st' \<Rightarrow> loop_y n x [0..<GRID_SIZE] st')"
  by (induction xs arbitrary: st) (simp_all split: sum.splits)

lemma col_sums_snoc:
  "col_sums g (xs @ [x]) rng =
     (fst (col_sums g xs rng) @ [fst (col_sum (column g x [0..<GRID_SIZE]) (snd (col_sums g xs rng)))],
      snd (col_sum (column g x [0..<GRID_SIZE]) (snd (col_sums g xs rng))))"
  by (induction xs arbitrary: rng) (simp_all add: split_def Let_def)

lemma length_col_sums [simp]: "length (fst (col_sums g xs rng)) = length xs"
  by (induction xs arbitrary: rng) (simp_all add: split_def Let_def)

lemma all_rows_in_range: "list_all (\<lambda>y. y < GRID_SIZE) [0..<GRID_SIZE]"
  by (simp add: list_all_iff)

lemma step_samples_pos: "0 < step_samples"
  by (simp add: step_samples_eq)

lemma window_index:
  assumes "0 < (s::nat)" "n * s \<le> i" "i < n * s + s"
  shows "i div s = n" "i mod s = i - n * s"
proof -
  obtain r where r: "i = n * s + r" "r < s"
    using assms by (metis add.commute le_Suc_ex nat_add_left_cancel_less)
  then show "i div s = n" "i mod s = i - n * s"
    using assms(1) by simp_all
qed

lemma loop_x_upt:
  assumes "wf_grid (grid w)" "n \<le> GRID_SIZE" "GRID_SIZE * step_samples \<le> length audio"
  shows "\<exists>audio'. loop_x step_samples [0..<n] (audio, w) =
            Inr (audio', w\<lparr>np_random := snd (col_sums (grid w) [0..<n] (np_random w))\<rparr>)
          \<and> length audio' = length audio
          \<and> (\<forall>i < length audio. audio' ! i = audio ! i +
                (if i < n * step_samples
                 then fst (col_sums (grid w) [0..<n] (np_random w)) ! (i div step_samples)
                        ! (i mod step_samples)
                 else 0))"
  using assms(2)
proof (induction n)
  case 0
  then show ?case by simp
next
  case (Suc n)
  let ?g = "grid w"
  let ?cs = "col_sums ?g [0..<n] (np_random w)"
  let ?w1 = "w\<lparr>np_random := snd ?cs\<rparr>"
  let ?col = "col_sum (column ?g n [0..<GRID_SIZE]) (snd ?cs)"
  from Suc obtain a1 where
    run: "loop_x step_samples [0..<n] (audio, w) = Inr (a1, ?w1)"
    and len: "length a1 = length audio"
    and nth: "\<forall>i < length audio. a1 ! i = audio ! i +
                (if i < n * step_samples
                 then fst ?cs ! (i div step_samples) ! (i mod step_samples) else 0)"
    by auto
  have n: "n < GRID_SIZE" using Suc.prems by simp
  have "(n + 1) * step_samples \<le> GRID_SIZE * step_samples"
    using n by (intro mult_le_mono1) simp
  then have fit: "n * step_samples + step_samples \<le> length a1"
    using assms(3) len by simp
  let ?a2 = "window_add a1 (n * step_samples) (fst ?col)"
  have body: "loop_y step_samples n [0..<GRID_SIZE] (a1, ?w1) =
                Inr (?a2, ?w1\<lparr>np_random := snd ?col\<rparr>)"
    using loop_y_eq [of ?w1 n "[0..<GRID_SIZE]" a1] assms(1) n fit all_rows_in_range
    by simp
  have run': "loop_x step_samples [0..<Suc n] (audio, w) =
                Inr (?a2, w\<lparr>np_random := snd (col_sums ?g [0..<Suc n] (np_random w))\<rparr>)"
    using run body by (simp add: loop_x_snoc col_sums_snoc)
  have len': "length ?a2 = length audio"
    using fit len by (simp add: length_window_add)
  have nth': "?a2 ! i = audio ! i +
                (if i < Suc n * step_samples
                 then fst (col_sums ?g [0..<Suc n] (np_random w)) ! (i div step_samples)
                        ! (i mod step_samples)
                 else 0)" if i: "i < length audio" for i
  proof -
    have a2: "?a2 ! i = (if n * step_samples \<le> i \<and> i < n * step_samples + step_samples
                         then a1 ! i + fst ?col ! (i - n * step_samples) else a1 ! i)"
      using fit i len by (simp add: nth_window_add)
    show ?thesis
    proof (cases "i < n * step_samples")
      case True
      then have "i div step_samples < n"
        by (simp add: less_mult_imp_div_less)
      then show ?thesis
        using True a2 nth i by (simp add: col_sums_snoc nth_append)
    next
      case False
      show ?thesis
      proof (cases "i < n * step_samples + step_samples")
        case True
        have "i div step_samples = n" "i mod step_samples = i - n * step_samples"
          using window_index [OF step_samples_pos _ True] False by simp_all
        then show ?thesis
          using True False a2 nth i by (simp add: col_sums_snoc nth_append)
      next
        case False
        then show ?thesis
          using \<open>\<not> i < n * step_samples\<close> a2 nth i by simp
      qed
    qed
  qed
  show ?case
    using run' len' nth' by blast
qed


lemma render_raw_eq:
  assumes "wf_grid (grid w)"
  shows "render_raw w =
           Inr (raw_buffer (grid w) (np_random w),
                w\<lparr>np_random := rng_after (grid w) (np_random w)\<rparr>)"
proof -
  let ?N = "LOOP_LEN_SEC * SAMPLE_RATE"
  have fit: "GRID_SIZE * step_samples \<le> length (np_zeros ?N)"
    using windows_fit by (simp add: np_zeros_def)
  from loop_x_upt [OF assms order_refl fit] obtain a where
    run: "loop_x step_samples [0..<GRID_SIZE] (np_zeros ?N, w) =
            Inr (a, w\<lparr>np_random := snd (col_sums (grid w) [0..<GRID_SIZE] (np_random w))\<rparr>)"
    and len: "length a = length (np_zeros ?N)"
    and nth: "\<forall>i < length (np_zeros ?N). a ! i = np_zeros ?N ! i +
                (if i < GRID_SIZE * step_samples
                 then fst (col_sums (grid w) [0..<GRID_SIZE] (np_random w)) ! (i div step_samples)
                        ! (i mod step_samples)
                 else 0)"
    by blast
  have "a = raw_buffer (grid w) (np_random w)"
  proof (rule nth_equalityI)
    show "length a = length (raw_buffer (grid w) (np_random w))"
      using len by (simp add: raw_buffer_def np_zeros_def)
  next
    fix i assume "i < length a"
    then have i: "i < ?N" using len by (simp add: np_zeros_def)
    then show "a ! i = raw_buffer (grid w) (np_random w) ! i"
      using nth by (simp add: raw_buffer_def np_zeros_def)
  qed
  then show ?thesis
    using run by (simp add: render_raw_def rng_after_def)
qed

lemma length_raw_buffer [simp]: "length (raw_buffer g rng) = LOOP_LEN_SEC * SAMPLE_RATE"
  by (simp add: raw_buffer_def)

lemma buffer_nonempty: "0 < LOOP_LEN_SEC * SAMPLE_RATE"
  by (simp add: LOOP_LEN_SEC_def SAMPLE_RATE_def)

lemma raw_buffer_nonempty [simp]: "raw_buffer g rng \<noteq> []"
  using buffer_nonempty length_raw_buffer [of g rng] by (metis length_0_conv less_numeral_extra(3))

lemma grid_to_audio_eq:
  assumes "wf_grid (grid w)"
  shows "grid_to_audio w =
           Inr (map (\<lambda>a. a / (peak (raw_buffer (grid w) (np_random w)) + 1 / 10 ^ 6))
                  (raw_buffer (grid w) (np_random w)),
                w\<lparr>np_random := rng_after (grid w) (np_random w)\<rparr>)"
  using assms by (simp add: grid_to_audio_def render_raw_eq normalize_def)

lemma abs_le_peak: "i < length xs \<Longrightarrow> \<bar>xs ! i\<bar> \<le> peak xs"
  by (simp add: peak_def)

lemma peak_nonneg: "xs \<noteq> [] \<Longrightarrow> 0 \<le> peak xs"
  using abs_le_peak [of 0 xs] by (simp add: order_trans [OF abs_ge_zero])

lemma peak_scaled:
  assumes "xs \<noteq> []" "0 < c"
  shows "peak (map (\<lambda>a. a / c) xs) = peak xs / c"
proof -
  have m: "mono (\<lambda>v::real. v / c)"
    using assms(2) by (simp add: mono_def divide_right_mono)
  have "set (map abs (map (\<lambda>a. a / c) xs)) = (\<lambda>v. v / c) ` set (map abs xs)"
    using assms(2) by (auto simp: image_iff abs_divide) 
  moreover have "Max ((\<lambda>v. v / c) ` set (map abs xs)) = Max (set (map abs xs)) / c"
    using mono_Max_commute [OF m, of "set (map abs xs)"] assms(1) by simp
  ultimately show ?thesis
    by (simp add: peak_def)
qed

lemma peak_zeros: "0 < n \<Longrightarrow> peak (np_zeros n) = 0"
  by (simp add: peak_def np_zeros_def)


lemma vadd_zeros [simp]: "vadd (np_zeros n) (np_zeros n) = np_zeros n"
  by (simp add: vadd_def np_zeros_def map2_map_map [symmetric] zip_replicate map_replicate_const)

lemma col_sum_silent:
  assumes "list_all (\<lambda>c. cell_note c rng = (np_zeros step_samples, rng)) cs"
  shows "col_sum cs rng = (np_zeros step_samples, rng)"
  using assms by (induction cs) simp_all

lemma col_sums_silent:
  assumes "\<forall>x \<in> set xs. col_sum (column g x [0..<GRID_SIZE]) rng = (np_zeros step_samples, rng)"
  shows "col_sums g xs rng = (replicate (length xs) (np_zeros step_samples), rng)"
  using assms by (induction xs) simp_all

lemma world_np_random_same [simp]: "w\<lparr>np_random := np_random w\<rparr> = w"
  by simp

lemma raw_buffer_silent:
  assumes "\<forall>y < GRID_SIZE. \<forall>x < GRID_SIZE. cell_note (g ! y ! x) rng = (np_zeros step_samples, rng)"
  shows "raw_buffer g rng = np_zeros (LOOP_LEN_SEC * SAMPLE_RATE)" "rng_after g rng = rng"
proof -
  have col: "col_sum (column g x [0..<GRID_SIZE]) rng = (np_zeros step_samples, rng)"
    if "x < GRID_SIZE" for x
    by (rule col_sum_silent) (use assms that in \<open>simp add: column_def list_all_iff\<close>)
  have cs: "col_sums g [0..<GRID_SIZE] rng = (replicate GRID_SIZE (np_zeros step_samples), rng)"
    using col_sums_silent [of "[0..<GRID_SIZE]" g rng] col by simp
  show "rng_after g rng = rng"
    by (simp add: rng_after_def cs)
  show "raw_buffer g rng = np_zeros (LOOP_LEN_SEC * SAMPLE_RATE)"
  proof (rule nth_equalityI)
    show "length (raw_buffer g rng) = length (np_zeros (LOOP_LEN_SEC * SAMPLE_RATE))"
      by (simp add: np_zeros_def)
  next
    fix i assume "i < length (raw_buffer g rng)"
    then have i: "i < LOOP_LEN_SEC * SAMPLE_RATE" by simp
    have "i div step_samples < GRID_SIZE" "i mod step_samples < step_samples"
      if "i < GRID_SIZE * step_samples"
      using that step_samples_pos by (simp_all add: less_mult_imp_div_less)
    then show "raw_buffer g rng ! i = np_zeros (LOOP_LEN_SEC * SAMPLE_RATE) ! i"
      using i by (simp add: raw_buffer_def cs np_zeros_def)
  qed
qed

lemma cell_note_unmatched:
  "COLOR_TO_IDX c = None \<Longrightarrow> cell_note c rng = (np_zeros step_samples, rng)"
  by (simp add: cell_note_def)

lemma normalize_zeros: "map (\<lambda>a. a / c) (np_zeros n) = np_zeros n"
  by (simp add: np_zeros_def)

lemma buffer_length: "LOOP_LEN_SEC * SAMPLE_RATE = 176400"
  by (simp add: LOOP_LEN_SEC_def SAMPLE_RATE_def)

lemma windows_end: "GRID_SIZE * step_samples = 176384"
  by (simp add: step_samples_eq GRID_SIZE_def)

text \<open>
  C3. For a well-shaped grid in which no cell carries a registered instrument colour,
  \<open>grid_to_audio\<close> returns (it does not raise) a buffer of exactly 176400 samples, each
  exactly zero, and leaves the program state as it was.
\<close>

theorem empty_grid_renders_silence:
  assumes "wf_grid (grid w)" "unmatched_except (grid w) []"
  shows "grid_to_audio w = Inr (replicate 176400 0, w)"
proof -
  have "\<forall>y < GRID_SIZE. \<forall>x < GRID_SIZE.
          cell_note (grid w ! y ! x) (np_random w) = (np_zeros step_samples, np_random w)"
    using assms(2) by (simp add: unmatched_except_def cell_note_unmatched)
  then have "raw_buffer (grid w) (np_random w) = np_zeros (LOOP_LEN_SEC * SAMPLE_RATE)"
    and "rng_after (grid w) (np_random w) = np_random w"
    by (rule raw_buffer_silent)+
  then have "grid_to_audio w = Inr (np_zeros (LOOP_LEN_SEC * SAMPLE_RATE), w)"
    using assms(1) by (simp add: grid_to_audio_eq normalize_zeros)
  then show ?thesis
    by (simp add: np_zeros_def buffer_length)
qed

lemma wf_initial_grid: "wf_grid initial_grid"
  by (simp add: wf_grid_def initial_grid_def list_all_iff)

lemma COLOR_TO_IDX_black: "COLOR_TO_IDX (0, 0, 0) = None"
  by (simp add: COLOR_TO_IDX_eq)

lemma unmatched_initial_grid: "unmatched_except initial_grid []"
  by (simp add: unmatched_except_def initial_grid_def COLOR_TO_IDX_black)

lemma grid_initial_world [simp]: "grid (initial_world npr pyr) = initial_grid"
  by (simp add: initial_world_def)

theorem empty_grid_renders_silence_witness:
  "wf_grid (grid (initial_world rng_half py_zero))
   \<and> unmatched_except (grid (initial_world rng_half py_zero)) []
   \<and> grid_to_audio (initial_world rng_half py_zero)
       = Inr (replicate 176400 0, initial_world rng_half py_zero)"
proof -
  have h1: "wf_grid (grid (initial_world rng_half py_zero))"
    by (simp add: wf_initial_grid)
  have h2: "unmatched_except (grid (initial_world rng_half py_zero)) []"
    by (simp add: unmatched_initial_grid)
  show ?thesis
    using h1 h2 empty_grid_renders_silence [OF h1 h2] by blast
qed

lemma raw_buffer_tail:
  assumes "GRID_SIZE * step_samples \<le> i" "i < LOOP_LEN_SEC * SAMPLE_RATE"
  shows "raw_buffer g rng ! i = 0"
  using assms by (simp add: raw_buffer_def)

text \<open>
  C10. \<open>step_samples\<close> is 2756 and the 64 step windows end at sample 176384, so for
  every well-shaped grid the last 16 samples of the returned buffer (indices 176384 to
  176399) are exactly zero.
\<close>

theorem last_samples_zero:
  assumes "wf_grid (grid w)"
  shows "step_samples = 2756 \<and> GRID_SIZE * step_samples = 176384
         \<and> (\<exists>a w'. grid_to_audio w = Inr (a, w') \<and> length a = 176400
               \<and> (\<forall>i. 176384 \<le> i \<and> i < 176400 \<longrightarrow> a ! i = 0))"
proof -
  let ?raw = "raw_buffer (grid w) (np_random w)"
  let ?a = "map (\<lambda>a. a / (peak ?raw + 1 / 10 ^ 6)) ?raw"
  have "?a ! i = 0" if "176384 \<le> i \<and> i < 176400" for i
  proof -
    have "?raw ! i = 0"
      by (rule raw_buffer_tail) (use that in \<open>simp_all add: windows_end buffer_length\<close>)
    moreover have "i < length ?raw"
      using that by (simp add: buffer_length)
    ultimately show ?thesis by simp
  qed
  moreover have "length ?a = 176400"
    by (simp add: buffer_length)
  ultimately show ?thesis
    using grid_to_audio_eq [OF assms] step_samples_eq windows_end by blast
qed

theorem last_samples_zero_witness:
  "wf_grid (grid (initial_world rng_half py_zero))
   \<and> step_samples = 2756 \<and> GRID_SIZE * step_samples = 176384
   \<and> (\<exists>a w'. grid_to_audio (initial_world rng_half py_zero) = Inr (a, w') \<and> length a = 176400
         \<and> (\<forall>i. 176384 \<le> i \<and> i < 176400 \<longrightarrow> a ! i = 0))"
proof -
  have h: "wf_grid (grid (initial_world rng_half py_zero))"
    by (simp add: wf_initial_grid)
  show ?thesis
    using h last_samples_zero [OF h] by blast
qed


subsection \<open>The render writes nothing but the generator\<close>

lemma cell_body_frame:
  assumes "cell_body n x y (audio, w) = Inr (audio', w')"
  shows "w' = w\<lparr>np_random := np_random w'\<rparr>"
  using assms
  by (auto simp: cell_body_def Let_def split_def split: sum.splits option.splits)

lemma loop_y_frame:
  assumes "loop_y n x ys (audio, w) = Inr (audio', w')"
  shows "w' = w\<lparr>np_random := np_random w'\<rparr>"
  using assms
proof (induction ys arbitrary: audio w)
  case Nil
  then show ?case by simp
next
  case (Cons y ys)
  then obtain a1 w1 where b: "cell_body n x y (audio, w) = Inr (a1, w1)"
    and r: "loop_y n x ys (a1, w1) = Inr (audio', w')"
    by (auto split: sum.splits)
  have "w1 = w\<lparr>np_random := np_random w1\<rparr>" using b by (rule cell_body_frame)
  moreover have "w' = w1\<lparr>np_random := np_random w'\<rparr>" using r by (rule Cons.IH)
  ultimately show ?case
    by (metis world.update_convs(7) world.surjective world.select_convs(7))
qed


lemma loop_x_frame:
  assumes "loop_x n xs (audio, w) = Inr (audio', w')"
  shows "w' = w\<lparr>np_random := np_random w'\<rparr>"
  using assms
proof (induction xs arbitrary: audio w)
  case Nil
  then show ?case by simp
next
  case (Cons x xs)
  then obtain a1 w1 where b: "loop_y n x [0..<GRID_SIZE] (audio, w) = Inr (a1, w1)"
    and r: "loop_x n xs (a1, w1) = Inr (audio', w')"
    by (auto split: sum.splits)
  have "w1 = w\<lparr>np_random := np_random w1\<rparr>" using b by (rule loop_y_frame)
  moreover have "w' = w1\<lparr>np_random := np_random w'\<rparr>" using r by (rule Cons.IH)
  ultimately show ?case
    by (metis world.update_convs(7) world.surjective world.select_convs(7))
qed

lemma grid_to_audio_frame:
  assumes "grid_to_audio w = Inr (a, w')"
  shows "w' = w\<lparr>np_random := np_random w'\<rparr>"
proof -
  from assms obtain raw where "render_raw w = Inr (raw, w')"
    by (auto simp: grid_to_audio_def split: sum.splits)
  then show ?thesis
    unfolding render_raw_def Let_def by (rule loop_x_frame)
qed

text \<open>
  C8. Rendering writes nothing but numpy's generator: whenever \<open>grid_to_audio\<close> returns,
  the grid (and every other field of the state except the generator) is what it was; on
  a well-shaped grid it does return; and the buffer it returns is determined by the grid
  and the generator alone.
\<close>

theorem render_leaves_grid:
  "(\<forall>a w'. grid_to_audio w = Inr (a, w') \<longrightarrow>
       grid w' = grid w \<and> w' = w\<lparr>np_random := np_random w'\<rparr>)
   \<and> (wf_grid (grid w) \<longrightarrow> (\<exists>a w'. grid_to_audio w = Inr (a, w')))
   \<and> (wf_grid (grid w) \<and> grid v = grid w \<and> np_random v = np_random w \<longrightarrow>
        (\<exists>a w' v'. grid_to_audio w = Inr (a, w') \<and> grid_to_audio v = Inr (a, v')))"
proof (intro conjI allI impI)
  fix a w' assume r: "grid_to_audio w = Inr (a, w')"
  show "w' = w\<lparr>np_random := np_random w'\<rparr>"
    using r by (rule grid_to_audio_frame)
  then show "grid w' = grid w"
    by (metis world.select_convs(1) world.surjective world.update_convs(7))
next
  assume "wf_grid (grid w)"
  then show "\<exists>a w'. grid_to_audio w = Inr (a, w')"
    by (simp add: grid_to_audio_eq)
next
  assume "wf_grid (grid w) \<and> grid v = grid w \<and> np_random v = np_random w"
  then show "\<exists>a w' v'. grid_to_audio w = Inr (a, w') \<and> grid_to_audio v = Inr (a, v')"
    by (simp add: grid_to_audio_eq)
qed

theorem render_leaves_grid_witness:
  "wf_grid (grid hihat_world)
   \<and> (\<exists>a w'. grid_to_audio hihat_world = Inr (a, w')
         \<and> grid w' = grid hihat_world \<and> w' = hihat_world\<lparr>np_random := np_random w'\<rparr>)"
proof -
  have h: "wf_grid (grid hihat_world)"
    by (simp add: hihat_world_def wf_grid_def grid_put_def initial_grid_def list_all_length
        nth_list_update)
  show ?thesis
    using h render_leaves_grid [of hihat_world hihat_world] by blast
qed


subsection \<open>Cells that draw no noise\<close>

lemma cell_note_det:
  assumes "c \<noteq> snare_color" "c \<noteq> hihat_color"
  shows "cell_note c rng = (det_note c, rng)"
  using assms
  by (simp add: cell_note_def det_note_def COLOR_TO_IDX_eq synth_note_def Let_def
      snare_color_def hihat_color_def)

lemma col_sum_det:
  assumes "list_all (\<lambda>c. c \<noteq> snare_color \<and> c \<noteq> hihat_color) cs"
  shows "snd (col_sum cs rng) = rng \<and> fst (col_sum cs rng) = fst (col_sum cs (\<lambda>k. 0))"
  using assms
proof (induction cs)
  case Nil
  then show ?case by simp
next
  case (Cons c cs)
  then have c: "cell_note c r = (det_note c, r)" for r
    by (simp add: cell_note_det)
  have "snd (col_sum cs rng) = rng \<and> fst (col_sum cs rng) = fst (col_sum cs (\<lambda>k. 0))"
    using Cons by simp
  then show ?case
    by (simp add: c split_def Let_def)
qed

lemma col_sums_det:
  assumes "\<forall>x \<in> set xs. list_all (\<lambda>c. c \<noteq> snare_color \<and> c \<noteq> hihat_color)
                               (column g x [0..<GRID_SIZE])"
  shows "snd (col_sums g xs rng) = rng \<and> fst (col_sums g xs rng) = fst (col_sums g xs (\<lambda>k. 0))"
  using assms
proof (induction xs)
  case Nil
  then show ?case by simp
next
  case (Cons x xs)
  have c: "snd (col_sum (column g x [0..<GRID_SIZE]) r) = r
           \<and> fst (col_sum (column g x [0..<GRID_SIZE]) r)
               = fst (col_sum (column g x [0..<GRID_SIZE]) (\<lambda>k. 0))" for r
    by (rule col_sum_det) (use Cons.prems in simp)
  have "snd (col_sums g xs rng) = rng \<and> fst (col_sums g xs rng) = fst (col_sums g xs (\<lambda>k. 0))"
    using Cons by simp
  then show ?case
    using c [of rng] c [of "\<lambda>k. 0"] by (simp add: split_def Let_def)
qed

lemma no_noise_columns:
  assumes "no_noise_cells g"
  shows "\<forall>x \<in> set [0..<GRID_SIZE]. list_all (\<lambda>c. c \<noteq> snare_color \<and> c \<noteq> hihat_color)
                               (column g x [0..<GRID_SIZE])"
  using assms by (simp add: no_noise_cells_def column_def list_all_iff)

lemma raw_buffer_det:
  assumes "no_noise_cells g"
  shows "raw_buffer g rng = raw_buffer g (\<lambda>k. 0)" "rng_after g rng = rng"
proof -
  have "snd (col_sums g [0..<GRID_SIZE] rng) = rng
        \<and> fst (col_sums g [0..<GRID_SIZE] rng) = fst (col_sums g [0..<GRID_SIZE] (\<lambda>k. 0))"
    using no_noise_columns [OF assms] by (rule col_sums_det)
  then show "raw_buffer g rng = raw_buffer g (\<lambda>k. 0)" "rng_after g rng = rng"
    by (simp_all add: raw_buffer_def rng_after_def)
qed

text \<open>
  C9. For a well-shaped grid without Snare- and Hi-Hat-coloured cells, a render returns
  a buffer and leaves the state as it was, and any render of a state with the same grid --
  a second render, or one with another generator -- returns the same buffer.
\<close>

theorem noise_free_render_deterministic:
  assumes "wf_grid (grid w)" "no_noise_cells (grid w)" "grid v = grid w"
  shows "\<exists>a. grid_to_audio w = Inr (a, w) \<and> grid_to_audio v = Inr (a, v)"
proof -
  have w: "raw_buffer (grid w) (np_random w) = raw_buffer (grid w) (\<lambda>k. 0)"
    "rng_after (grid w) (np_random w) = np_random w"
    using assms(2) by (rule raw_buffer_det)+
  have v: "raw_buffer (grid w) (np_random v) = raw_buffer (grid w) (\<lambda>k. 0)"
    "rng_after (grid w) (np_random v) = np_random v"
    using assms(2) by (rule raw_buffer_det)+
  have "wf_grid (grid v)" using assms by simp
  then show ?thesis
    using assms(1,3) w v by (simp add: grid_to_audio_eq)
qed


lemma grid_put_beyond: "length g \<le> y \<Longrightarrow> grid_put g y x c = g"
  by (simp add: grid_put_def list_update_beyond)

lemma wf_grid_put:
  assumes "wf_grid g"
  shows "wf_grid (grid_put g y x c)"
proof (cases "y < length g")
  case True
  then show ?thesis
    using assms by (auto simp: wf_grid_def grid_put_def list_all_length nth_list_update)
next
  case False
  then show ?thesis
    using assms by (simp add: grid_put_beyond)
qed

lemma nth_grid_put:
  assumes "wf_grid g" "y < GRID_SIZE" "x < GRID_SIZE"
  shows "grid_put g y0 x0 c ! y ! x = (if y = y0 \<and> x = x0 then c else g ! y ! x)"
proof (cases "y0 < length g")
  case True
  then show ?thesis
    using assms by (auto simp: wf_grid_def grid_put_def list_all_length nth_list_update)
next
  case False
  then show ?thesis
    using assms by (auto simp: grid_put_beyond wf_grid_def)
qed

lemma nth_initial_grid: "y < GRID_SIZE \<Longrightarrow> x < GRID_SIZE \<Longrightarrow> initial_grid ! y ! x = (0, 0, 0)"
  by (simp add: initial_grid_def)

lemma grid_kick_world [simp]: "grid kick_world = grid_put initial_grid 3 0 kick_color"
  by (simp add: kick_world_def)

lemma grid_hihat_world [simp]: "grid hihat_world = grid_put initial_grid 0 0 hihat_color"
  by (simp add: hihat_world_def)

theorem noise_free_render_deterministic_witness:
  "wf_grid (grid kick_world) \<and> no_noise_cells (grid kick_world)
   \<and> grid (kick_world\<lparr>np_random := rng_zero\<rparr>) = grid kick_world
   \<and> (\<exists>a. grid_to_audio kick_world = Inr (a, kick_world)
         \<and> grid_to_audio (kick_world\<lparr>np_random := rng_zero\<rparr>)
             = Inr (a, kick_world\<lparr>np_random := rng_zero\<rparr>))"
proof -
  have h1: "wf_grid (grid kick_world)"
    by (simp add: wf_grid_put wf_initial_grid)
  have h2: "no_noise_cells (grid kick_world)"
    by (simp add: no_noise_cells_def nth_grid_put wf_initial_grid nth_initial_grid
        kick_color_def snare_color_def hihat_color_def)
  have h3: "grid (kick_world\<lparr>np_random := rng_zero\<rparr>) = grid kick_world"
    by simp
  show ?thesis
    using h1 h2 h3 noise_free_render_deterministic [OF h1 h2 h3] by blast
qed

subsection \<open>Normalization\<close>

lemma normalized_below_one:
  assumes "xs \<noteq> []" "i < length xs"
  shows "\<bar>map (\<lambda>a. a / (peak xs + 1 / 10 ^ 6)) xs ! i\<bar> < 1"
proof -
  have "\<bar>xs ! i\<bar> \<le> peak xs" using assms(2) by (rule abs_le_peak)
  moreover have "0 \<le> peak xs" using assms(1) by (rule peak_nonneg)
  ultimately have "\<bar>xs ! i\<bar> < peak xs + 1 / 10 ^ 6" "0 < peak xs + 1 / 10 ^ 6"
    by simp_all
  then have "\<bar>xs ! i\<bar> / (peak xs + 1 / 10 ^ 6) < 1"
    by simp
  then show ?thesis
    using assms(2) \<open>0 \<le> peak xs\<close> by (simp add: abs_divide)
qed

lemma rng_half_shift: "(\<lambda>k. rng_half (n + k)) = rng_half"
  by (simp add: rng_half_def)

lemma vmul_zeros: "length xs = n \<Longrightarrow> vmul xs (np_zeros n) = np_zeros n"
  by (rule nth_equalityI) (simp_all add: vmul_def np_zeros_def)

lemma hihat_silent_on_half: "cell_note hihat_color rng_half = (np_zeros step_samples, rng_half)"
proof -
  have u: "np_random_uniform (- 1) 1 n rng_half = (np_zeros n, rng_half)" for n
    by (simp add: np_random_uniform_def rng_half_def np_zeros_def map_replicate_const)
  have l: "length (smul 0.5 (np_exp (smul (- 30) note_times))) = step_samples"
    by (simp add: smul_def np_exp_def)
  have "synth_note 2 note_times rng_half = (np_zeros step_samples, rng_half)"
    using vmul_zeros [OF l] by (simp add: synth_note_def Let_def u)
  then show ?thesis
    by (simp add: cell_note_def hihat_color_def COLOR_TO_IDX_eq)
qed

text \<open>
  In the model every sequence of draws is a generator. For the constant sequence of draws
  one half every noise sample is 0, and a grid whose only registered cell is
  Hi-Hat-coloured renders 176400 zeros, of peak 0. So a bound that keeps the peak of a
  grid near 1 for every generator cannot rest on noise cells alone. Whether numpy's
  generator can produce such draws is outside the model.
\<close>

lemma constant_draws_silence:
  "COLOR_TO_IDX (grid hihat_world ! 0 ! 0) = Some 2
   \<and> grid_to_audio hihat_world = Inr (replicate 176400 0, hihat_world)
   \<and> peak (replicate 176400 0) = 0"
proof -
  have wf: "wf_grid (grid hihat_world)"
    by (simp add: wf_grid_put wf_initial_grid)
  have pos: "(0::nat) < GRID_SIZE" by (simp add: GRID_SIZE_def)
  have c: "grid hihat_world ! 0 ! 0 = hihat_color"
    using pos by (simp add: nth_grid_put wf_initial_grid)
  have r: "np_random hihat_world = rng_half"
    by (simp add: hihat_world_def initial_world_def)
  have "\<forall>y < GRID_SIZE. \<forall>x < GRID_SIZE.
          cell_note (grid hihat_world ! y ! x) rng_half = (np_zeros step_samples, rng_half)"
    by (simp add: nth_grid_put wf_initial_grid nth_initial_grid hihat_silent_on_half
        cell_note_unmatched COLOR_TO_IDX_black)
  then have "raw_buffer (grid hihat_world) rng_half = np_zeros (LOOP_LEN_SEC * SAMPLE_RATE)"
    and "rng_after (grid hihat_world) rng_half = rng_half"
    by (rule raw_buffer_silent)+
  then have "grid_to_audio hihat_world
               = Inr (np_zeros (LOOP_LEN_SEC * SAMPLE_RATE), hihat_world\<lparr>np_random := rng_half\<rparr>)"
    using grid_to_audio_eq [OF wf] r by (simp add: normalize_zeros del: grid_hihat_world)
  moreover have "hihat_world\<lparr>np_random := rng_half\<rparr> = hihat_world"
    using r world_np_random_same [of hihat_world] by simp
  moreover have "COLOR_TO_IDX hihat_color = Some 2"
    by (simp add: COLOR_TO_IDX_eq hihat_color_def)
  moreover have "peak (replicate 176400 0) = 0"
    by (simp add: peak_def)
  ultimately show ?thesis
    using c by (simp add: np_zeros_def buffer_length)
qed


subsection \<open>The buffer, sample by sample\<close>

lemma col_sums_nth:
  assumes "x < n"
  shows "fst (col_sums g [0..<n] rng) ! x
           = fst (col_sum (column g x [0..<GRID_SIZE]) (snd (col_sums g [0..<x] rng)))"
  using assms
proof (induction n)
  case 0
  then show ?case by simp
next
  case (Suc n)
  show ?case
  proof (cases "x < n")
    case True
    then show ?thesis
      using Suc.IH by (simp add: col_sums_snoc nth_append)
  next
    case False
    then have "x = n" using Suc.prems by simp
    then show ?thesis
      by (simp add: col_sums_snoc nth_append)
  qed
qed

lemma raw_buffer_nth:
  assumes "x < GRID_SIZE" "k < step_samples"
  shows "raw_buffer g rng ! (x * step_samples + k)
           = fst (col_sum (column g x [0..<GRID_SIZE]) (snd (col_sums g [0..<x] rng))) ! k"
proof -
  let ?i = "x * step_samples + k"
  have "Suc x * step_samples \<le> GRID_SIZE * step_samples"
    using assms(1) by (intro mult_le_mono1) simp
  then have i: "?i < GRID_SIZE * step_samples"
    using assms(2) by simp
  then have "?i < LOOP_LEN_SEC * SAMPLE_RATE"
    using windows_fit by simp
  moreover have "?i div step_samples = x" "?i mod step_samples = k"
    using assms(2) by simp_all
  ultimately show ?thesis
    using i assms(1) by (simp add: raw_buffer_def col_sums_nth)
qed

lemma col_sum_nth_det:
  assumes "list_all (\<lambda>c. c \<noteq> snare_color \<and> c \<noteq> hihat_color) cs" "k < step_samples"
  shows "fst (col_sum cs rng) ! k = sum_list (map (\<lambda>c. det_note c ! k) cs)"
  using assms
proof (induction cs arbitrary: rng)
  case Nil
  then show ?case by (simp add: np_zeros_def)
next
  case (Cons c cs)
  then have c: "cell_note c rng = (det_note c, rng)"
    by (simp add: cell_note_det)
  have l: "length (det_note c) = step_samples"
    by (simp add: det_note_def)
  have "fst (col_sum cs rng) ! k = sum_list (map (\<lambda>c. det_note c ! k) cs)"
    using Cons by simp
  then show ?case
    using Cons.prems(2) l by (simp add: c nth_vadd split_def Let_def)
qed

lemma raw_buffer_nth_det:
  assumes "no_noise_cells g" "x < GRID_SIZE" "k < step_samples"
  shows "raw_buffer g rng ! (x * step_samples + k)
           = sum_list (map (\<lambda>y. det_note (g ! y ! x) ! k) [0..<GRID_SIZE])"
proof -
  have "list_all (\<lambda>c. c \<noteq> snare_color \<and> c \<noteq> hihat_color) (column g x [0..<GRID_SIZE])"
    using no_noise_columns [OF assms(1)] assms(2) by simp
  then have "fst (col_sum (column g x [0..<GRID_SIZE]) r) ! k
               = sum_list (map (\<lambda>c. det_note c ! k) (column g x [0..<GRID_SIZE]))" for r
    using assms(3) by (rule col_sum_nth_det)
  then show ?thesis
    using assms by (simp add: raw_buffer_nth column_def comp_def)
qed

lemma sum_list_single:
  assumes "y0 < n" "\<forall>y < n. y \<noteq> y0 \<longrightarrow> f y = (0::real)"
  shows "sum_list (map f [0..<n]) = f y0"
proof -
  have "sum_list (map f [0..<n]) = sum f {0..<n}"
    by (simp add: interv_sum_list_conv_sum_set_nat)
  also have "\<dots> = f y0 + sum f ({0..<n} - {y0})"
    using assms(1) by (simp add: sum.remove)
  also have "sum f ({0..<n} - {y0}) = 0"
    using assms(2) by (intro sum.neutral) auto
  finally show ?thesis by simp
qed

lemma sum_list_pair:
  assumes "y1 < n" "y2 < n" "y1 \<noteq> y2" "\<forall>y < n. y \<noteq> y1 \<and> y \<noteq> y2 \<longrightarrow> f y = (0::real)"
  shows "sum_list (map f [0..<n]) = f y1 + f y2"
proof -
  have "sum_list (map f [0..<n]) = sum f {0..<n}"
    by (simp add: interv_sum_list_conv_sum_set_nat)
  also have "\<dots> = f y1 + sum f ({0..<n} - {y1})"
    using assms(1) by (simp add: sum.remove)
  also have "sum f ({0..<n} - {y1}) = f y2 + sum f ({0..<n} - {y1} - {y2})"
    using assms(2,3) by (simp add: sum.remove)
  also have "sum f ({0..<n} - {y1} - {y2}) = 0"
    using assms(4) by (intro sum.neutral) auto
  finally show ?thesis by simp
qed

lemma det_note_unmatched: "COLOR_TO_IDX c = None \<Longrightarrow> det_note c = np_zeros step_samples"
  by (simp add: det_note_def cell_note_def)

lemma note_times_nth: "k < step_samples \<Longrightarrow> note_times ! k = real k / real SAMPLE_RATE"
  by (simp add: note_times_def np_linspace_noend_def)

lemma kick_shape: "fst (synth_note 0 t rng) = map kick_spec t"
  by (rule nth_equalityI)
    (simp_all add: synth_note_def Let_def vmul_def smul_def np_exp_def np_sin_def kick_spec_def
      algebra_simps)

lemma det_note_kick: "k < step_samples \<Longrightarrow> det_note kick_color ! k = kick_spec (real k / real SAMPLE_RATE)"
  by (simp add: det_note_def cell_note_def kick_color_def COLOR_TO_IDX_eq kick_shape
      note_times_nth)


lemma sum_list_zero: "\<forall>y < n. f y = (0::real) \<Longrightarrow> sum_list (map f [0..<n]) = 0"
  by (simp add: interv_sum_list_conv_sum_set_nat)

lemma raw_buffer_nth_cases:
  assumes "no_noise_cells g" "i < LOOP_LEN_SEC * SAMPLE_RATE"
  shows "raw_buffer g rng ! i =
           (if i < GRID_SIZE * step_samples
            then sum_list (map (\<lambda>y. det_note (g ! y ! (i div step_samples)) ! (i mod step_samples))
                            [0..<GRID_SIZE])
            else 0)"
proof (cases "i < GRID_SIZE * step_samples")
  case True
  then have x: "i div step_samples < GRID_SIZE"
    by (simp add: less_mult_imp_div_less)
  have k: "i mod step_samples < step_samples"
    using step_samples_pos by simp
  have "raw_buffer g rng ! (i div step_samples * step_samples + i mod step_samples)
          = sum_list (map (\<lambda>y. det_note (g ! y ! (i div step_samples)) ! (i mod step_samples))
                            [0..<GRID_SIZE])"
    using assms(1) x k by (rule raw_buffer_nth_det)
  then show ?thesis
    using True by simp
next
  case False
  then show ?thesis
    using assms(2) by (simp add: raw_buffer_tail)
qed

lemma unmatched_no_noise:
  assumes "unmatched_except g cells"
    and "\<forall>(y, x) \<in> set cells. g ! y ! x \<noteq> snare_color \<and> g ! y ! x \<noteq> hihat_color"
  shows "no_noise_cells g"
  unfolding no_noise_cells_def
proof (intro allI impI)
  fix y x assume yx: "y < GRID_SIZE" "x < GRID_SIZE"
  show "g ! y ! x \<noteq> snare_color \<and> g ! y ! x \<noteq> hihat_color"
  proof (cases "(y, x) \<in> set cells")
    case True
    then show ?thesis using assms(2) by auto
  next
    case False
    then have "COLOR_TO_IDX (g ! y ! x) = None"
      using assms(1) yx by (simp add: unmatched_except_def)
    then show ?thesis
      by (auto simp: COLOR_TO_IDX_eq snare_color_def hihat_color_def)
  qed
qed

lemma single_kick_buffer:
  assumes "y0 < GRID_SIZE" "g ! y0 ! 0 = kick_color" "unmatched_except g [(y0, 0)]"
  shows "i < step_samples \<Longrightarrow> raw_buffer g rng ! i = kick_spec (real i / real SAMPLE_RATE)"
    and "step_samples \<le> i \<Longrightarrow> i < 176400 \<Longrightarrow> raw_buffer g rng ! i = 0"
    and "no_noise_cells g"
proof -
  let ?raw = "raw_buffer g rng"
  show nn: "no_noise_cells g"
    using assms(3) by (rule unmatched_no_noise)
      (simp add: assms(2) kick_color_def snare_color_def hihat_color_def)
  have other: "det_note (g ! y ! x) ! k = 0"
    if "y < GRID_SIZE" "x < GRID_SIZE" "(y, x) \<noteq> (y0, 0)" "k < step_samples" for y x k
  proof -
    have "COLOR_TO_IDX (g ! y ! x) = None"
      using assms(3) that by (simp add: unmatched_except_def)
    then show ?thesis
      using that(4) by (simp add: det_note_unmatched np_zeros_def)
  qed
  have pos: "0 < GRID_SIZE" by (simp add: GRID_SIZE_def)
  show "?raw ! i = kick_spec (real i / real SAMPLE_RATE)" if i: "i < step_samples"
  proof -
    have "?raw ! (0 * step_samples + i)
            = sum_list (map (\<lambda>y. det_note (g ! y ! 0) ! i) [0..<GRID_SIZE])"
      using nn pos i by (rule raw_buffer_nth_det)
    also have "\<dots> = det_note (g ! y0 ! 0) ! i"
      by (rule sum_list_single) (use assms(1) other pos i in auto)
    finally show ?thesis
      using i by (simp add: assms(2) det_note_kick)
  qed
  show "?raw ! i = 0" if i: "step_samples \<le> i" "i < 176400"
  proof (cases "i < GRID_SIZE * step_samples")
    case True
    let ?x = "i div step_samples" and ?k = "i mod step_samples"
    have x: "?x < GRID_SIZE" using True by (simp add: less_mult_imp_div_less)
    have k: "?k < step_samples" using step_samples_pos by simp
    have x0: "?x \<noteq> 0" using i step_samples_pos by (simp add: div_eq_0_iff)
    have "?raw ! i = sum_list (map (\<lambda>y. det_note (g ! y ! ?x) ! ?k) [0..<GRID_SIZE])"
      using nn i True by (simp add: raw_buffer_nth_cases buffer_length)
    also have "\<dots> = 0"
      by (rule sum_list_zero) (use other x k x0 in auto)
    finally show ?thesis .
  next
    case False
    then show ?thesis
      using i by (simp add: raw_buffer_tail buffer_length)
  qed
qed

text \<open>
  C5. For every time array the Kick note is \<open>0.8 * exp (-8 t) * sin (2 pi 55 (1 - 0.5 t) t)\<close>,
  and it draws no noise. For a well-shaped grid whose only registered cell is a
  Kick-coloured cell in column 0 (any row), the pre-normalization buffer has 176400
  samples; sample \<open>i\<close> of the first \<open>step_samples\<close> ones is that formula at
  \<open>t = i / SAMPLE_RATE\<close>, and every later sample is zero.
\<close>

theorem single_kick_render:
  assumes "wf_grid (grid w)" "y0 < GRID_SIZE" "grid w ! y0 ! 0 = kick_color"
    and "unmatched_except (grid w) [(y0, 0)]"
  shows "synth_note 0 t rng = (map kick_spec t, rng)
         \<and> (\<exists>raw w'. render_raw w = Inr (raw, w') \<and> length raw = 176400
               \<and> (\<forall>i < step_samples. raw ! i = kick_spec (real i / real SAMPLE_RATE))
               \<and> (\<forall>i. step_samples \<le> i \<and> i < 176400 \<longrightarrow> raw ! i = 0))"
proof -
  let ?g = "grid w"
  let ?raw = "raw_buffer ?g (np_random w)"
  have shape: "synth_note 0 t rng = (map kick_spec t, rng)"
    using kick_shape [of t rng] by (simp add: synth_note_def Let_def prod_eq_iff)
  have first: "?raw ! i = kick_spec (real i / real SAMPLE_RATE)" if "i < step_samples" for i
    using assms(2-4) that by (rule single_kick_buffer(1))
  have later: "?raw ! i = 0" if "step_samples \<le> i \<and> i < 176400" for i
    using single_kick_buffer(2) [OF assms(2-4)] that by simp
  have "render_raw w = Inr (?raw, w\<lparr>np_random := rng_after ?g (np_random w)\<rparr>)"
    using assms(1) by (rule render_raw_eq)
  moreover have "length ?raw = 176400"
    by (simp add: buffer_length)
  ultimately show ?thesis
    using shape first later by blast
qed

lemma three_lt_GRID_SIZE: "3 < GRID_SIZE" "0 < GRID_SIZE" "5 < GRID_SIZE"
  by (simp_all add: GRID_SIZE_def)

lemma unmatched_grid_put:
  assumes "wf_grid g" "unmatched_except g cells"
  shows "unmatched_except (grid_put g y x c) ((y, x) # cells)"
  using assms by (auto simp: unmatched_except_def nth_grid_put)

theorem single_kick_render_witness:
  "wf_grid (grid kick_world) \<and> 3 < GRID_SIZE \<and> grid kick_world ! 3 ! 0 = kick_color
   \<and> unmatched_except (grid kick_world) [(3, 0)]
   \<and> synth_note 0 [0] rng_half = (map kick_spec [0], rng_half)
   \<and> (\<exists>raw w'. render_raw kick_world = Inr (raw, w') \<and> length raw = 176400
         \<and> (\<forall>i < step_samples. raw ! i = kick_spec (real i / real SAMPLE_RATE))
         \<and> (\<forall>i. step_samples \<le> i \<and> i < 176400 \<longrightarrow> raw ! i = 0))"
proof -
  have h1: "wf_grid (grid kick_world)"
    by (simp add: wf_grid_put wf_initial_grid)
  have h2: "3 < GRID_SIZE"
    by (rule three_lt_GRID_SIZE)
  have h3: "grid kick_world ! 3 ! 0 = kick_color"
    by (simp add: nth_grid_put wf_initial_grid three_lt_GRID_SIZE)
  have h4: "unmatched_except (grid kick_world) [(3, 0)]"
    by (simp add: unmatched_grid_put wf_initial_grid unmatched_initial_grid)
  show ?thesis
    using h1 h2 h3 h4 single_kick_render [OF h1 h2 h3 h4, of "[0]" rng_half] by blast
qed

text \<open>
  The loop body at a registered cell, run on any buffer of the render's length: it
  returns the buffer with the cell's note added in the window of the cell's column.
\<close>

lemma cell_body_window:
  assumes "wf_grid (grid w)" "x < GRID_SIZE" "y < GRID_SIZE"
    and "length audio = LOOP_LEN_SEC * SAMPLE_RATE"
    and "COLOR_TO_IDX (grid w ! y ! x) = Some inst_idx"
  shows "step_samples = SAMPLE_RATE * LOOP_LEN_SEC div GRID_SIZE \<and> step_samples = 2756
         \<and> x * step_samples + step_samples \<le> length audio
         \<and> length (fst (synth_note inst_idx note_times (np_random w))) = step_samples
         \<and> (\<exists>audio' w'. cell_body step_samples x y (audio, w) = Inr (audio', w')
               \<and> length audio' = length audio
               \<and> (\<forall>i < length audio.
                     audio' ! i =
                       (if x * step_samples \<le> i \<and> i < x * step_samples + step_samples
                        then audio ! i
                             + fst (synth_note inst_idx note_times (np_random w)) ! (i - x * step_samples)
                        else audio ! i)))"
proof -
  let ?note = "fst (synth_note inst_idx note_times (np_random w))"
  have n: "fst (cell_note (grid w ! y ! x) (np_random w)) = ?note"
    using assms(5) by (simp add: cell_note_def)
  have len: "length ?note = step_samples" by simp
  have "Suc x * step_samples \<le> GRID_SIZE * step_samples"
    using assms(2) by (intro mult_le_mono1) simp
  then have fit: "x * step_samples + step_samples \<le> length audio"
    using windows_fit assms(4) by simp
  have run: "cell_body step_samples x y (audio, w) =
               Inr (window_add audio (x * step_samples) ?note,
                    w\<lparr>np_random := snd (cell_note (grid w ! y ! x) (np_random w))\<rparr>)"
    using cell_body_eq [OF assms(1-3) fit] n by simp
  have l: "length (window_add audio (x * step_samples) ?note) = length audio"
    using fit by (simp add: length_window_add)
  have v: "\<forall>i < length audio. window_add audio (x * step_samples) ?note ! i =
             (if x * step_samples \<le> i \<and> i < x * step_samples + step_samples
              then audio ! i + ?note ! (i - x * step_samples) else audio ! i)"
    using fit by (simp add: nth_window_add)
  show ?thesis
    using run l v fit len step_samples_eq by (simp add: step_samples_def)
qed

subsection \<open>Cells of one column\<close>

lemma render_raw_det:
  assumes "wf_grid (grid w)" "no_noise_cells (grid w)"
  shows "render_raw w = Inr (raw_buffer (grid w) (\<lambda>k. 0), w)"
proof -
  have "raw_buffer (grid w) (np_random w) = raw_buffer (grid w) (\<lambda>k. 0)"
    and "rng_after (grid w) (np_random w) = np_random w"
    using assms(2) by (rule raw_buffer_det)+
  then show ?thesis
    using render_raw_eq [OF assms(1)] by simp
qed

lemma column_sum_one_cell:
  assumes "wf_grid g" "unmatched_except g []" "y1 < GRID_SIZE" "x < GRID_SIZE" "k < step_samples"
  shows "sum_list (map (\<lambda>y. det_note (grid_put g y1 x0 c ! y ! x) ! k) [0..<GRID_SIZE])
           = (if x = x0 then det_note c ! k else 0)"
proof -
  have z: "det_note (g ! y ! x) ! k = 0" if "y < GRID_SIZE" for y
    using assms that by (simp add: unmatched_except_def det_note_unmatched np_zeros_def)
  show ?thesis
  proof (cases "x = x0")
    case True
    have "sum_list (map (\<lambda>y. det_note (grid_put g y1 x0 c ! y ! x) ! k) [0..<GRID_SIZE])
            = det_note (grid_put g y1 x0 c ! y1 ! x) ! k"
      by (rule sum_list_single) (use assms z in \<open>auto simp: nth_grid_put\<close>)
    then show ?thesis
      using True assms by (simp add: nth_grid_put)
  next
    case False
    have "sum_list (map (\<lambda>y. det_note (grid_put g y1 x0 c ! y ! x) ! k) [0..<GRID_SIZE]) = 0"
      by (rule sum_list_zero) (use assms z False in \<open>auto simp: nth_grid_put\<close>)
    then show ?thesis
      using False by simp
  qed
qed

lemma column_sum_two_cells:
  assumes "wf_grid g" "unmatched_except g []" "y1 < GRID_SIZE" "y2 < GRID_SIZE" "y1 \<noteq> y2"
    and "x < GRID_SIZE" "k < step_samples"
  shows "sum_list (map (\<lambda>y. det_note (grid_put (grid_put g y1 x0 c) y2 x0 c ! y ! x) ! k)
                     [0..<GRID_SIZE])
           = (if x = x0 then det_note c ! k + det_note c ! k else 0)"
proof -
  let ?g = "grid_put (grid_put g y1 x0 c) y2 x0 c"
  have wf1: "wf_grid (grid_put g y1 x0 c)"
    using assms(1) by (rule wf_grid_put)
  have cell: "?g ! y ! x = (if (y = y1 \<or> y = y2) \<and> x = x0 then c else g ! y ! x)"
    if "y < GRID_SIZE" for y
    using that assms(1,6) wf1 by (simp add: nth_grid_put)
  have z: "det_note (g ! y ! x) ! k = 0" if "y < GRID_SIZE" for y
    using assms that by (simp add: unmatched_except_def det_note_unmatched np_zeros_def)
  show ?thesis
  proof (cases "x = x0")
    case True
    have "sum_list (map (\<lambda>y. det_note (?g ! y ! x) ! k) [0..<GRID_SIZE])
            = det_note (?g ! y1 ! x) ! k + det_note (?g ! y2 ! x) ! k"
      by (rule sum_list_pair) (use assms z cell in auto)
    then show ?thesis
      using True assms cell by simp
  next
    case False
    have "sum_list (map (\<lambda>y. det_note (?g ! y ! x) ! k) [0..<GRID_SIZE]) = 0"
      by (rule sum_list_zero) (use z cell False in auto)
    then show ?thesis
      using False by simp
  qed
qed

lemma no_noise_grid_put:
  assumes "wf_grid g" "no_noise_cells g" "c \<noteq> snare_color" "c \<noteq> hihat_color"
  shows "no_noise_cells (grid_put g y x c)"
  using assms by (simp add: no_noise_cells_def nth_grid_put)

lemma unmatched_all_no_noise: "unmatched_except g [] \<Longrightarrow> no_noise_cells g"
  using unmatched_no_noise [of g "[]"] by simp

lemma column_mset_sum:
  assumes "mset (column g x [0..<GRID_SIZE]) = mset (column h x [0..<GRID_SIZE])"
  shows "sum_list (map (\<lambda>y. det_note (g ! y ! x) ! k) [0..<GRID_SIZE])
           = sum_list (map (\<lambda>y. det_note (h ! y ! x) ! k) [0..<GRID_SIZE])"
proof -
  have "sum_list (map (\<lambda>y. det_note (g' ! y ! x) ! k) [0..<GRID_SIZE])
          = sum_mset (image_mset (\<lambda>c. det_note c ! k) (mset (column g' x [0..<GRID_SIZE])))" for g'
  proof -
    have "sum_list (map (\<lambda>y. det_note (g' ! y ! x) ! k) [0..<GRID_SIZE])
            = sum_list (map (\<lambda>c. det_note c ! k) (column g' x [0..<GRID_SIZE]))"
      by (simp add: column_def comp_def)
    also have "\<dots> = sum_mset (mset (map (\<lambda>c. det_note c ! k) (column g' x [0..<GRID_SIZE])))"
      by (simp only: sum_mset_sum_list)
    finally show ?thesis
      by (simp only: mset_map)
  qed
  then show ?thesis
    using assms by simp
qed


lemma raw_buffer_eqI:
  assumes "no_noise_cells g" "no_noise_cells h"
    and "\<And>x k. x < GRID_SIZE \<Longrightarrow> k < step_samples \<Longrightarrow>
           sum_list (map (\<lambda>y. det_note (g ! y ! x) ! k) [0..<GRID_SIZE])
             = sum_list (map (\<lambda>y. det_note (h ! y ! x) ! k) [0..<GRID_SIZE])"
  shows "raw_buffer g rng = raw_buffer h rng'"
proof (rule nth_equalityI)
  show "length (raw_buffer g rng) = length (raw_buffer h rng')" by simp
next
  fix i assume "i < length (raw_buffer g rng)"
  then have i: "i < LOOP_LEN_SEC * SAMPLE_RATE" by simp
  have "i div step_samples < GRID_SIZE" if "i < GRID_SIZE * step_samples"
    using that by (simp add: less_mult_imp_div_less)
  moreover have "i mod step_samples < step_samples"
    using step_samples_pos by simp
  ultimately show "raw_buffer g rng ! i = raw_buffer h rng' ! i"
    using assms i by (simp add: raw_buffer_nth_cases)
qed

lemma permuted_columns_no_noise:
  assumes "no_noise_cells g" "wf_grid g" "wf_grid h"
    and "\<forall>x < GRID_SIZE. mset (column g x [0..<GRID_SIZE]) = mset (column h x [0..<GRID_SIZE])"
  shows "no_noise_cells h"
  unfolding no_noise_cells_def
proof (intro allI impI)
  fix y x assume yx: "y < GRID_SIZE" "x < GRID_SIZE"
  have "set (column h x [0..<GRID_SIZE]) = set (column g x [0..<GRID_SIZE])"
    using assms(4) yx(2) by (metis mset_eq_setD)
  moreover have "h ! y ! x \<in> set (column h x [0..<GRID_SIZE])"
    using yx(1) by (simp add: column_def)
  ultimately obtain y' where "y' < GRID_SIZE" "h ! y ! x = g ! y' ! x"
    by (auto simp: column_def)
  then show "h ! y ! x \<noteq> snare_color \<and> h ! y ! x \<noteq> hihat_color"
    using assms(1) yx(2) by (simp add: no_noise_cells_def)
qed



lemma column_grid_put:
  assumes "wf_grid g" "x < GRID_SIZE"
  shows "column (grid_put g y x0 c) x [0..<GRID_SIZE]
           = (if x = x0 then (column g x [0..<GRID_SIZE])[y := c] else column g x [0..<GRID_SIZE])"
  by (rule nth_equalityI)
    (use assms in \<open>auto simp: column_def nth_grid_put nth_list_update\<close>)

lemma column_initial_grid:
  "x < GRID_SIZE \<Longrightarrow> column initial_grid x [0..<GRID_SIZE] = replicate GRID_SIZE (0, 0, 0)"
  by (rule nth_equalityI) (simp_all add: column_def nth_initial_grid)

lemma mset_replicate_update:
  "i < n \<Longrightarrow> mset ((replicate n b)[i := c]) = add_mset c (mset (replicate n b) - {#b#})"
  by (simp add: mset_update)

lemma same_columns_rows_3_5:
  "same_columns (grid_put initial_grid 3 0 c) (grid_put initial_grid 5 0 c)"
  by (simp add: same_columns_def column_grid_put wf_initial_grid column_initial_grid
      mset_replicate_update three_lt_GRID_SIZE)

lemma grid_kick_world_row5 [simp]: "grid kick_world_row5 = grid_put initial_grid 5 0 kick_color"
  by (simp add: kick_world_row5_def)

lemma kick_not_noise: "kick_color \<noteq> snare_color" "kick_color \<noteq> hihat_color"
  by (simp_all add: kick_color_def snare_color_def hihat_color_def)



subsection \<open>The colours of the grid\<close>

lemma py_index_less: "py_index n i = Inr k \<Longrightarrow> k < n"
  by (auto simp: py_index_def split: if_splits)

lemma instruments_get_palette:
  assumes "instruments_get i = Inr inst"
  shows "palette_color (fst inst)"
proof -
  from assms obtain k where k: "py_index (length INSTRUMENTS) i = Inr k" "inst = INSTRUMENTS ! k"
    by (auto simp: instruments_get_def split: sum.splits)
  then have "k < length INSTRUMENTS" by (simp add: py_index_less)
  then have "inst \<in> set INSTRUMENTS" using k(2) by simp
  then show ?thesis by (simp add: palette_color_def)
qed

lemma background_palette: "palette_color (0, 0, 0)"
  by (simp add: palette_color_def)

lemma grid_set_eq:
  assumes "grid_set g y x c = Inr g'"
  obtains yy xx where "yy < length g" "g' = g[yy := (g ! yy)[xx := c]]"
  using assms
  by (auto simp: grid_set_def split: sum.splits dest: py_index_less)

lemma list_all_update: "list_all P xs \<Longrightarrow> P x \<Longrightarrow> list_all P (xs[i := x])"
  using set_update_subset_insert [of xs i x] by (auto simp: list_all_iff)

lemma update_palette:
  assumes "palette_grid g" "palette_color c"
  shows "palette_grid (g[yy := (g ! yy)[xx := c]])"
proof (cases "yy < length g")
  case True
  have "list_all palette_color (g ! yy)"
    using assms(1) True by (simp add: palette_grid_def list_all_length)
  then have "list_all palette_color ((g ! yy)[xx := c])"
    using assms(2) by (rule list_all_update)
  then show ?thesis
    using assms(1) unfolding palette_grid_def by (rule list_all_update [rotated])
next
  case False
  then show ?thesis using assms(1) by (simp add: list_update_beyond)
qed

lemma update_wf:
  assumes "wf_grid g"
  shows "wf_grid (g[yy := (g ! yy)[xx := c]])"
  using wf_grid_put [OF assms, of yy xx c] by (simp add: grid_put_def)

lemma grid_set_inv:
  assumes "grid_set g y x c = Inr g'" "palette_color c" "palette_grid g" "wf_grid g"
  shows "palette_grid g' \<and> wf_grid g'"
  using assms(1)
proof (rule grid_set_eq)
  fix yy xx assume "g' = g[yy := (g ! yy)[xx := c]]"
  then show ?thesis
    using assms(2-4) by (simp add: update_palette update_wf)
qed

lemma grid_get_palette:
  assumes "grid_get g a b = Inr c" "palette_grid g"
  shows "palette_color c"
  using assms
  by (auto simp: grid_get_def palette_grid_def list_all_length split: if_splits)

lemma mutate_step_inv:
  assumes "mutate_step w = Inr w'" "grid_inv w"
  shows "grid_inv w'"
  using assms
  by (auto simp: mutate_step_def grid_inv_def Let_def split_def
      split: if_splits sum.splits
      dest!: instruments_get_palette grid_get_palette
      dest: grid_set_inv)


lemma repeat_inv:
  assumes "\<And>v v'. f v = Inr v' \<Longrightarrow> grid_inv v \<Longrightarrow> grid_inv v'"
    and "repeat n f w = Inr w'" "grid_inv w"
  shows "grid_inv w'"
  using assms(2,3)
proof (induction n arbitrary: w)
  case 0
  then show ?case by simp
next
  case (Suc n)
  then obtain w1 where "f w = Inr w1" "repeat n f w1 = Inr w'"
    by (auto split: sum.splits)
  then show ?case
    using Suc.IH assms(1) Suc.prems(2) by blast
qed

lemma repeat_total:
  assumes "\<And>v. grid_inv v \<Longrightarrow> \<exists>v'. f v = Inr v' \<and> grid_inv v'" "grid_inv w"
  shows "\<exists>w'. repeat n f w = Inr w' \<and> grid_inv w'"
  using assms(2)
proof (induction n arbitrary: w)
  case 0
  then show ?case by simp
next
  case (Suc n)
  then obtain w1 where "f w = Inr w1" "grid_inv w1"
    using assms(1) by blast
  then show ?case
    using Suc.IH by simp
qed

lemma mutate_grid_inv: "mutate_grid w = Inr w' \<Longrightarrow> grid_inv w \<Longrightarrow> grid_inv w'"
  unfolding mutate_grid_def by (rule repeat_inv [of mutate_step]) (rule mutate_step_inv)

lemma save_gif_inv: "save_gif w = Inr w' \<Longrightarrow> grid_inv w \<Longrightarrow> grid_inv w'"
  unfolding save_gif_def by (rule repeat_inv [of mutate_grid]) (rule mutate_grid_inv)

lemma grid_to_audio_grid: "grid_to_audio w = Inr (a, w') \<Longrightarrow> grid w' = grid w"
  by (drule grid_to_audio_frame) (metis world.select_convs(1) world.surjective world.update_convs(7))

lemma render_inv:
  assumes "(case grid_to_audio w of Inl e \<Rightarrow> Inl e | Inr (audio, w2) \<Rightarrow> Inr w2) = Inr w'"
    and "grid_inv w"
  shows "grid_inv w'"
proof -
  from assms(1) obtain a where "grid_to_audio w = Inr (a, w')"
    by (auto split: sum.splits)
  then have "grid w' = grid w" by (rule grid_to_audio_grid)
  then show ?thesis using assms(2) by (simp add: grid_inv_def)
qed

lemma paint_at_inv:
  assumes "paint_at w pos = Inr w'" "grid_inv w"
  shows "grid_inv w'"
  using assms
  by (auto simp: paint_at_def grid_inv_def Let_def background_palette
      split: prod.splits if_splits sum.splits
      dest!: instruments_get_palette dest: grid_set_inv)

lemma reset_inv:
  assumes "wf_grid g"
  shows "palette_grid (map (map (\<lambda>c. (0, 0, 0))) g)" "wf_grid (map (map (\<lambda>c. (0, 0, 0))) g)"
  using assms
  by (simp_all add: palette_grid_def wf_grid_def list_all_iff background_palette)

lemma raising_Inr: "raising r = Inr w \<longleftrightarrow> r = Inr w"
  by (simp add: raising_def split: sum.splits)

lemma handle_event_inv:
  assumes "handle_event w e = Inr w'" "grid_inv w"
  shows "grid_inv w'"
proof (cases e)
  case QUIT
  then show ?thesis using assms by simp
next
  case (KEYDOWN k unicode)
  have toggled: "grid_inv (w\<lparr>playing := \<not> playing w\<rparr>)"
    using assms(2) by (simp add: grid_inv_def)
  show ?thesis
    using assms KEYDOWN toggled
    by (auto simp: Let_def raising_Inr save_snapshot_def grid_inv_def reset_inv
        split: if_splits sum.splits
        dest: render_inv [unfolded grid_inv_def] mutate_grid_inv [unfolded grid_inv_def]
          save_gif_inv [unfolded grid_inv_def] grid_to_audio_grid)
next
  case (MOUSEBUTTONDOWN button pos)
  have "grid_inv (w\<lparr>mouse_down := True, mouse_button := button\<rparr>)"
    using assms(2) by (simp add: grid_inv_def)
  then show ?thesis
    using assms(1) MOUSEBUTTONDOWN
    by (auto simp: Let_def grid_inv_def split: sum.splits if_splits
        dest!: paint_at_inv [unfolded grid_inv_def])
next
  case MOUSEBUTTONUP
  then show ?thesis using assms by (auto simp: grid_inv_def)
next
  case (MOUSEMOTION pos)
  then show ?thesis
    using assms by (auto simp: raising_Inr split: if_splits dest: paint_at_inv)
next
  case OTHER_EVENT
  then show ?thesis using assms by simp
qed

lemma run_events_inv:
  assumes "run_events w es = Inr w'" "grid_inv w"
  shows "grid_inv w'"
  using assms
proof (induction es arbitrary: w)
  case Nil
  then show ?case by simp
next
  case (Cons e es)
  then obtain w1 where "handle_event w e = Inr w1" "run_events w1 es = Inr w'"
    by (auto split: sum.splits)
  then show ?case
    using Cons.IH Cons.prems(2) handle_event_inv by blast
qed


subsection \<open>The operations succeed on a well-shaped grid\<close>

lemma py_randint_range:
  assumes "a \<le> b"
  shows "a \<le> fst (py_randint a b r)" "fst (py_randint a b r) \<le> b"
proof -
  have "0 < nat (b - a + 1)" using assms by simp
  then have "r 0 mod nat (b - a + 1) < nat (b - a + 1)"
    by (rule mod_less_divisor)
  then have "int (r 0 mod nat (b - a + 1)) < b - a + 1"
    using assms by linarith
  then show "a \<le> fst (py_randint a b r)" "fst (py_randint a b r) \<le> b"
    by (simp_all add: py_randint_def)
qed

lemma grid_set_total:
  assumes "wf_grid g" "0 \<le> y" "y < int GRID_SIZE" "0 \<le> x" "x < int GRID_SIZE"
  shows "grid_set g y x c = Inr (grid_put g (nat y) (nat x) c)"
proof -
  have ly: "length g = GRID_SIZE"
    using assms(1) by (simp add: wf_grid_def)
  have "nat y < GRID_SIZE" using assms(2,3) by simp
  then have lx: "length (g ! nat y) = GRID_SIZE"
    using assms(1) by (simp add: wf_grid_def list_all_length)
  show ?thesis
    using assms(2-5) by (simp add: grid_set_def py_index_def ly lx grid_put_def)
qed

lemma length_INSTRUMENTS: "length INSTRUMENTS = 5"
  by (simp add: INSTRUMENTS_def)

lemma instruments_get_in_range:
  assumes "0 \<le> k" "k \<le> 4"
  shows "instruments_get k = Inr (INSTRUMENTS ! nat k)"
  using assms by (simp add: instruments_get_def py_index_def length_INSTRUMENTS)

lemma instruments_get_total:
  assumes "0 \<le> k" "k \<le> 4"
  shows "\<exists>inst. instruments_get k = Inr inst"
  using instruments_get_in_range [OF assms] by blast

lemma mutate_step_total:
  assumes "grid_inv w"
  shows "\<exists>w'. mutate_step w = Inr w' \<and> grid_inv w'"
proof -
  let ?hi = "int GRID_SIZE - 1"
  let ?x = "fst (py_randint 0 ?hi (py_random w))"
  let ?r1 = "snd (py_randint 0 ?hi (py_random w))"
  let ?y = "fst (py_randint 0 ?hi ?r1)"
  let ?r2 = "snd (py_randint 0 ?hi ?r1)"
  let ?r3 = "snd (py_random_random ?r2)"
  let ?k = "fst (py_randint 0 4 ?r3)"
  have wf: "wf_grid (grid w)" using assms by (simp add: grid_inv_def)
  have hi: "0 \<le> ?hi" by (simp add: GRID_SIZE_def)
  have x: "0 \<le> ?x" "?x < int GRID_SIZE"
    using py_randint_range [OF hi, of "py_random w"] by simp_all
  have y: "0 \<le> ?y" "?y < int GRID_SIZE"
    using py_randint_range [OF hi, of ?r1] by simp_all
  have k: "0 \<le> ?k" "?k \<le> 4"
    using py_randint_range [of 0 4 ?r3] by simp_all
  have set: "grid_set (grid w) ?y ?x c = Inr (grid_put (grid w) (nat ?y) (nat ?x) c)" for c
    using wf y x by (rule grid_set_total)
  obtain inst where inst: "instruments_get ?k = Inr inst"
    using instruments_get_total [OF k] by blast
  have "nat (?x mod int GRID_SIZE) < GRID_SIZE" "nat (?y mod int GRID_SIZE) < GRID_SIZE"
    using x y by simp_all
  then have get: "grid_get (grid w) (nat (?x mod int GRID_SIZE)) (nat (?y mod int GRID_SIZE))
                    = Inr (grid w ! nat (?x mod int GRID_SIZE) ! nat (?y mod int GRID_SIZE))"
    using wf by (simp add: wf_grid_nth)
  have "\<exists>w'. mutate_step w = Inr w'"
    by (simp add: mutate_step_def Let_def split_def set inst get)
  then show ?thesis
    using mutate_step_inv assms by blast
qed

lemma mutate_grid_total:
  assumes "grid_inv w"
  shows "\<exists>w'. mutate_grid w = Inr w' \<and> grid_inv w'"
  unfolding mutate_grid_def using mutate_step_total assms by (rule repeat_total)

lemma palette_initial_grid: "palette_grid initial_grid"
  by (simp add: palette_grid_def initial_grid_def list_all_iff background_palette)

lemma palette_color_iff:
  "palette_color c \<longleftrightarrow>
     c = kick_color \<or> c = snare_color \<or> c = hihat_color \<or> c = bass_color \<or> c = lead_color
     \<or> c = (0, 0, 0)"
  by (auto simp: palette_color_def INSTRUMENTS_def kick_color_def snare_color_def hihat_color_def
      bass_color_def lead_color_def)


lemma grid_inv_initial: "grid_inv (initial_world npr pyr)"
  by (simp add: grid_inv_def palette_initial_grid wf_initial_grid)

text \<open>
  C7. The palette is the five instrument colours and \<open>(0, 0, 0)\<close>. The grid allocated at
  start-up has the allocated shape and palette colours only, and every event the main
  loop handles without stopping -- painting and erasing with the mouse, reset, mutation,
  the animated export with its mutations, and the events that leave the grid alone --
  keeps both, so every state a session reaches from start-up has them. On a grid with
  the invariant the mutation does not raise, and its result has the invariant.
\<close>

theorem grid_stays_in_palette:
  "grid_inv (initial_world npr pyr)
   \<and> (palette_color c \<longleftrightarrow>
         c = kick_color \<or> c = snare_color \<or> c = hihat_color \<or> c = bass_color
         \<or> c = lead_color \<or> c = (0, 0, 0))
   \<and> (grid_inv w \<and> handle_event w e = Inr w' \<longrightarrow> grid_inv w')
   \<and> (grid_inv w \<longrightarrow> (\<exists>v. mutate_grid w = Inr v \<and> grid_inv v))
   \<and> (run_events (initial_world npr pyr) es = Inr w'' \<longrightarrow> grid_inv w'')"
proof (intro conjI impI)
  show "grid_inv (initial_world npr pyr)"
    by (rule grid_inv_initial)
  show "palette_color c \<longleftrightarrow>
         c = kick_color \<or> c = snare_color \<or> c = hihat_color \<or> c = bass_color
         \<or> c = lead_color \<or> c = (0, 0, 0)"
    by (rule palette_color_iff)
  show "grid_inv w'" if "grid_inv w \<and> handle_event w e = Inr w'"
    using that handle_event_inv by blast
  show "\<exists>v. mutate_grid w = Inr v \<and> grid_inv v" if "grid_inv w"
    using that by (rule mutate_grid_total)
  show "grid_inv w''" if "run_events (initial_world npr pyr) es = Inr w''"
    using that grid_inv_initial by (rule run_events_inv)
qed

lemma cell_of_click: "(8::int) div PIXEL_ZOOM = 1" "((118::int) - UI_HEIGHT) div PIXEL_ZOOM = 1"
  by (simp_all add: PIXEL_ZOOM_def UI_HEIGHT_def)

lemma one_lt_GRID_SIZE: "(1::int) < int GRID_SIZE"
  by (simp add: GRID_SIZE_def)

lemma paint_left_click:
  assumes "wf_grid (grid w)" "mouse_button w = 1" "current_color_idx w = 0"
  shows "paint_at w (8, 118) = Inr (w\<lparr>grid := grid_put (grid w) 1 1 kick_color\<rparr>)"
proof -
  have "instruments_get 0 = Inr (INSTRUMENTS ! nat 0)"
    by (rule instruments_get_in_range) simp_all
  then have i: "instruments_get 0 = Inr ((255, 80, 80), ''Kick'', ''1'', 0x1F534)"
    by (simp add: INSTRUMENTS_def)
  have s: "grid_set (grid w) 1 1 c = Inr (grid_put (grid w) (nat 1) (nat 1) c)" for c
    using assms(1) one_lt_GRID_SIZE by (intro grid_set_total) simp_all
  show ?thesis
    using assms(2,3) one_lt_GRID_SIZE
    by (simp add: paint_at_def cell_of_click i s kick_color_def)
qed

lemma paint_right_click:
  assumes "wf_grid (grid w)" "mouse_button w = 3"
  shows "paint_at w (8, 118) = Inr (w\<lparr>grid := grid_put (grid w) 1 1 (0, 0, 0)\<rparr>)"
proof -
  have s: "grid_set (grid w) 1 1 c = Inr (grid_put (grid w) (nat 1) (nat 1) c)" for c
    using assms(1) one_lt_GRID_SIZE by (intro grid_set_total) simp_all
  show ?thesis
    using assms(2) one_lt_GRID_SIZE
    by (simp add: paint_at_def cell_of_click s)
qed

lemma first_click:
  "handle_event (initial_world rng_half py_zero) (MOUSEBUTTONDOWN 1 (8, 118)) = Inr painted_world"
proof -
  let ?w1 = "(initial_world rng_half py_zero)\<lparr>mouse_down := True, mouse_button := 1\<rparr>"
  have "paint_at ?w1 (8, 118) = Inr (?w1\<lparr>grid := grid_put (grid ?w1) 1 1 kick_color\<rparr>)"
    by (rule paint_left_click) (simp_all add: wf_initial_grid initial_world_def)
  then show ?thesis
    by (simp add: painted_world_def initial_world_def)
qed

lemma session_run: "run_events (initial_world rng_half py_zero) click_session = Inr erased_world"
proof -
  let ?w2 = "painted_world\<lparr>mouse_down := False\<rparr>"
  let ?w3 = "?w2\<lparr>mouse_down := True, mouse_button := 3\<rparr>"
  have g: "grid ?w3 = grid_put initial_grid 1 1 kick_color"
    by (simp add: painted_world_def)
  have wf3: "wf_grid (grid ?w3)"
    by (simp add: painted_world_def wf_grid_put wf_initial_grid)
  have "paint_at ?w3 (8, 118) = Inr (?w3\<lparr>grid := grid_put (grid ?w3) 1 1 (0, 0, 0)\<rparr>)"
    using wf3 by (rule paint_right_click) simp
  then have e3: "handle_event ?w2 (MOUSEBUTTONDOWN 3 (8, 118)) = Inr erased_world"
    by (simp add: erased_world_def painted_world_def initial_world_def)
  have e2: "handle_event painted_world MOUSEBUTTONUP = Inr ?w2"
    by simp
  show ?thesis
    by (simp only: click_session_def run_events.simps first_click e2 e3 sum.case)
qed

theorem grid_stays_in_palette_witness:
  "grid_inv (initial_world rng_half py_zero)
   \<and> handle_event (initial_world rng_half py_zero) (MOUSEBUTTONDOWN 1 (8, 118)) = Inr painted_world
   \<and> grid_inv painted_world
   \<and> (\<exists>v. mutate_grid (initial_world rng_half py_zero) = Inr v \<and> grid_inv v)
   \<and> run_events (initial_world rng_half py_zero) click_session = Inr erased_world
   \<and> grid_inv erased_world"
proof -
  have h1: "grid_inv (initial_world rng_half py_zero)"
    by (rule grid_inv_initial)
  have h2: "handle_event (initial_world rng_half py_zero) (MOUSEBUTTONDOWN 1 (8, 118))
              = Inr painted_world"
    by (rule first_click)
  have h3: "run_events (initial_world rng_half py_zero) click_session = Inr erased_world"
    by (rule session_run)
  show ?thesis
    using h1 h2 h3
      grid_stays_in_palette [of rng_half py_zero kick_color "initial_world rng_half py_zero"
        "MOUSEBUTTONDOWN 1 (8, 118)" painted_world click_session erased_world]
    by blast
qed


subsection \<open>How loud a grid without noise cells is\<close>

lemma sin_ge_half:
  assumes "pi / 6 \<le> x" "x \<le> pi / 2"
  shows "1 / 2 \<le> sin x"
proof -
  have "sin (pi / 6) \<le> sin x"
    using assms by (subst sin_mono_le_eq) (auto intro: order_trans [of _ 0])
  then show ?thesis by (simp add: sin_30)
qed

lemma sin_pi_frac_ge_half:
  assumes "1 / 6 \<le> q" "q \<le> 1 / 2"
  shows "1 / 2 \<le> sin (q * pi)"
proof (rule sin_ge_half)
  show "pi / 6 \<le> q * pi" using assms(1) by (simp add: field_simps)
  show "q * pi \<le> pi / 2" using assms(2) by (simp add: field_simps)
qed

lemma sin_pi_frac_nonneg:
  assumes "0 \<le> q" "q \<le> 1"
  shows "0 \<le> sin (q * pi)"
proof (rule sin_ge_zero)
  show "0 \<le> q * pi" using assms(1) by simp
  show "q * pi \<le> pi" using assms(2) by (simp add: mult_left_le_one_le)
qed


lemma exp_neg_lower: "1 - c \<le> exp (- c)" for c :: real
  using exp_ge_add_one_self [of "- c"] by simp

text \<open>The three notes at local times \<open>20/44100\<close>, \<open>50/44100\<close> and \<open>100/44100\<close>.\<close>

lemma lead_at_20: "6 / 25 \<le> lead_spec (1 / 2205)"
proof -
  have a: "2 * pi * 440 * (1 / 2205) = (176 / 441) * pi"
    and b: "2 * pi * 660 * (1 / 2205) = (264 / 441) * pi"
    and c: "2 * pi * 880 * (1 / 2205) = (352 / 441) * pi"
    by simp_all
  have s1: "1 / 2 \<le> sin (2 * pi * 440 * (1 / 2205))"
    unfolding a by (rule sin_pi_frac_ge_half) simp_all
  have s2: "0 \<le> sin (2 * pi * 660 * (1 / 2205))"
    unfolding b by (rule sin_pi_frac_nonneg) simp_all
  have s3: "0 \<le> sin (2 * pi * 880 * (1 / 2205))"
    unfolding c by (rule sin_pi_frac_nonneg) simp_all
  have e: "1 - 2 / 2205 \<le> exp (- (2 / 2205 :: real))"
    by (rule exp_neg_lower)
  have osc: "1 / 2 \<le> sin (2 * pi * 440 * (1 / 2205)) + 0.5 * sin (2 * pi * 660 * (1 / 2205))
                       + 0.3 * sin (2 * pi * 880 * (1 / 2205))"
    using s1 s2 s3 by simp
  have "(1 - 2 / 2205) * (1 / 2) \<le> exp (- (2 / 2205))
          * (sin (2 * pi * 440 * (1 / 2205)) + 0.5 * sin (2 * pi * 660 * (1 / 2205))
              + 0.3 * sin (2 * pi * 880 * (1 / 2205)))"
    using e osc by (rule mult_mono) simp_all
  then show ?thesis
    by (simp add: lead_spec_def)
qed

lemma bass_nonneg_at_20: "0 \<le> bass_spec (1 / 2205)"
proof -
  have a: "2 * pi * 110 * (1 / 2205) = (44 / 441) * pi" by simp
  have "0 \<le> sin (2 * pi * 110 * (1 / 2205))"
    unfolding a by (rule sin_pi_frac_nonneg) simp_all
  then show ?thesis by (simp add: bass_spec_def)
qed

lemma kick_arg: "2 * pi * 55 * (1 - 0.5 * t) * t = (110 * t * (1 - t / 2)) * pi" for t :: real
  by (simp add: algebra_simps)

lemma kick_nonneg_at_20: "0 \<le> kick_spec (1 / 2205)"
proof -
  have "0 \<le> sin ((110 * (1 / 2205) * (1 - (1 / 2205) / 2)) * pi)"
    by (rule sin_pi_frac_nonneg) simp_all
  then have "0 \<le> sin (2 * pi * 55 * (1 - 0.5 * (1 / 2205)) * (1 / 2205))"
    by (simp only: kick_arg)
  then show ?thesis by (simp add: kick_spec_def)
qed

lemma bass_at_50: "6 / 25 \<le> bass_spec (1 / 882)"
proof -
  have a: "2 * pi * 110 * (1 / 882) = (110 / 441) * pi" by simp
  have s: "1 / 2 \<le> sin (2 * pi * 110 * (1 / 882))"
    unfolding a by (rule sin_pi_frac_ge_half) simp_all
  have e: "1 - 4 / 882 \<le> exp (- (4 / 882 :: real))"
    by (rule exp_neg_lower)
  have "(1 - 4 / 882) * (1 / 2) \<le> exp (- (4 / 882)) * sin (2 * pi * 110 * (1 / 882))"
    using e s by (rule mult_mono) simp_all
  then show ?thesis
    by (simp add: bass_spec_def)
qed

lemma kick_nonneg_at_50: "0 \<le> kick_spec (1 / 882)"
proof -
  have "0 \<le> sin ((110 * (1 / 882) * (1 - (1 / 882) / 2)) * pi)"
    by (rule sin_pi_frac_nonneg) simp_all
  then have "0 \<le> sin (2 * pi * 55 * (1 - 0.5 * (1 / 882)) * (1 / 882))"
    by (simp only: kick_arg)
  then show ?thesis by (simp add: kick_spec_def)
qed

lemma kick_at_100: "6 / 25 \<le> kick_spec (1 / 441)"
proof -
  have "1 / 2 \<le> sin ((110 * (1 / 441) * (1 - (1 / 441) / 2)) * pi)"
    by (rule sin_pi_frac_ge_half) simp_all
  then have s: "1 / 2 \<le> sin (2 * pi * 55 * (1 - 0.5 * (1 / 441)) * (1 / 441))"
    by (simp only: kick_arg)
  have e: "1 - 8 / 441 \<le> exp (- (8 / 441 :: real))"
    by (rule exp_neg_lower)
  have "(1 - 8 / 441) * (1 / 2) \<le> exp (- (8 / 441)) * sin (2 * pi * 55 * (1 - 0.5 * (1 / 441)) * (1 / 441))"
    using e s by (rule mult_mono) simp_all
  then show ?thesis
    by (simp add: kick_spec_def)
qed


lemma sample_times:
  "note_times ! 20 = 1 / 2205" "note_times ! 50 = 1 / 882" "note_times ! 100 = 1 / 441"
  by (simp_all add: note_times_nth step_samples_eq SAMPLE_RATE_def)

lemma bass_shape: "fst (synth_note 3 t rng) = map bass_spec t"
  by (rule nth_equalityI)
    (simp_all add: synth_note_def Let_def vmul_def smul_def np_exp_def np_sin_def bass_spec_def
      algebra_simps)

lemma lead_shape: "fst (synth_note 4 t rng) = map lead_spec t"
  by (rule nth_equalityI)
    (simp_all add: synth_note_def Let_def vmul_def vadd_def smul_def np_exp_def np_sin_def
      lead_spec_def algebra_simps)

lemma det_note_cases:
  assumes "c \<noteq> snare_color" "c \<noteq> hihat_color" "k < step_samples"
  shows "det_note c ! k =
           (if c = kick_color then kick_spec (note_times ! k)
            else if c = bass_color then bass_spec (note_times ! k)
            else if c = lead_color then lead_spec (note_times ! k)
            else 0)"
proof -
  have "COLOR_TO_IDX c = None" if "c \<noteq> kick_color" "c \<noteq> bass_color" "c \<noteq> lead_color"
    using that assms(1,2)
    by (simp add: COLOR_TO_IDX_eq kick_color_def bass_color_def lead_color_def snare_color_def
        hihat_color_def)
  then show ?thesis
    using assms(3)
    by (auto simp: det_note_def cell_note_def COLOR_TO_IDX_eq kick_color_def bass_color_def
        lead_color_def kick_shape bass_shape lead_shape np_zeros_def)
qed

lemma sum_list_ge_member:
  fixes vs :: "real list"
  assumes "\<forall>v \<in> set vs. 0 \<le> v" "a \<in> set vs"
  shows "a \<le> sum_list vs"
  using assms
proof (induction vs)
  case Nil
  then show ?case by simp
next
  case (Cons v vs)
  have rest: "0 \<le> sum_list vs"
    using Cons.prems(1) by (intro sum_list_nonneg) simp
  show ?case
  proof (cases "a = v")
    case True
    then show ?thesis using rest by simp
  next
    case False
    then have "a \<le> sum_list vs"
      using Cons by simp
    moreover have "0 \<le> v" using Cons.prems(1) by simp
    ultimately show ?thesis by simp
  qed
qed

lemma registered_no_noise:
  assumes "COLOR_TO_IDX c \<noteq> None" "c \<noteq> snare_color" "c \<noteq> hihat_color"
  shows "c = kick_color \<or> c = bass_color \<or> c = lead_color"
  using assms
  by (auto simp: COLOR_TO_IDX_eq kick_color_def bass_color_def lead_color_def snare_color_def
      hihat_color_def split: if_splits)

lemma step_samples_gt: "20 < step_samples" "50 < step_samples" "100 < step_samples"
  by (simp_all add: step_samples_eq)

lemma loud_column:
  assumes "list_all (\<lambda>c. c \<noteq> snare_color \<and> c \<noteq> hihat_color) cs"
    and "c0 \<in> set cs" "COLOR_TO_IDX c0 \<noteq> None"
  shows "\<exists>k < step_samples. 6 / 25 \<le> sum_list (map (\<lambda>c. det_note c ! k) cs)"
proof -
  have nn: "c \<noteq> snare_color" "c \<noteq> hihat_color" if "c \<in> set cs" for c
    using assms(1) that by (simp_all add: list_all_iff)
  have c0: "c0 = kick_color \<or> c0 = bass_color \<or> c0 = lead_color"
    using assms(2,3) nn by (intro registered_no_noise) simp_all
  have via: "6 / 25 \<le> sum_list (map (\<lambda>c. det_note c ! k) cs)"
    if "c1 \<in> set cs" "6 / 25 \<le> det_note c1 ! k" "\<forall>c \<in> set cs. 0 \<le> det_note c ! k" for c1 k
  proof -
    have "det_note c1 ! k \<le> sum_list (map (\<lambda>c. det_note c ! k) cs)"
      by (rule sum_list_ge_member) (use that in auto)
    then show ?thesis using that(2) by simp
  qed
  consider (lead) "lead_color \<in> set cs"
    | (bass) "lead_color \<notin> set cs" "bass_color \<in> set cs"
    | (kick) "lead_color \<notin> set cs" "bass_color \<notin> set cs" "kick_color \<in> set cs"
    using c0 assms(2) by auto
  then show ?thesis
  proof cases
    case lead
    have "6 / 25 \<le> sum_list (map (\<lambda>c. det_note c ! 20) cs)"
    proof (rule via [OF lead])
      show "6 / 25 \<le> det_note lead_color ! 20"
        using nn [OF lead] step_samples_gt(1) lead_at_20
        by (simp add: det_note_cases sample_times kick_color_def bass_color_def lead_color_def)
      show "\<forall>c \<in> set cs. 0 \<le> det_note c ! 20"
        using nn step_samples_gt(1) lead_at_20 bass_nonneg_at_20 kick_nonneg_at_20
        by (auto simp: det_note_cases sample_times)
    qed
    then show ?thesis using step_samples_gt(1) by blast
  next
    case bass
    have "6 / 25 \<le> sum_list (map (\<lambda>c. det_note c ! 50) cs)"
    proof (rule via [OF bass(2)])
      show "6 / 25 \<le> det_note bass_color ! 50"
        using nn [OF bass(2)] step_samples_gt(2) bass_at_50
        by (simp add: det_note_cases sample_times kick_color_def bass_color_def)
      show "\<forall>c \<in> set cs. 0 \<le> det_note c ! 50"
        using nn step_samples_gt(2) bass_at_50 kick_nonneg_at_50 bass(1)
        by (auto simp: det_note_cases sample_times)
    qed
    then show ?thesis using step_samples_gt(2) by blast
  next
    case kick
    have "6 / 25 \<le> sum_list (map (\<lambda>c. det_note c ! 100) cs)"
    proof (rule via [OF kick(3)])
      show "6 / 25 \<le> det_note kick_color ! 100"
        using nn [OF kick(3)] step_samples_gt(3) kick_at_100
        by (simp add: det_note_cases sample_times)
      show "\<forall>c \<in> set cs. 0 \<le> det_note c ! 100"
        using nn step_samples_gt(3) kick_at_100 kick(1,2)
        by (auto simp: det_note_cases sample_times)
    qed
    then show ?thesis using step_samples_gt(3) by blast
  qed
qed

lemma loud_grid:
  assumes "noise_free_registered_column g"
  shows "6 / 25 \<le> peak (raw_buffer g rng)"
proof -
  from assms obtain x y where x: "x < GRID_SIZE" and y: "y < GRID_SIZE"
    and clean: "\<forall>y < GRID_SIZE. g ! y ! x \<noteq> snare_color \<and> g ! y ! x \<noteq> hihat_color"
    and reg: "COLOR_TO_IDX (g ! y ! x) \<noteq> None"
    by (auto simp: noise_free_registered_column_def)
  let ?cs = "column g x [0..<GRID_SIZE]"
  let ?r = "snd (col_sums g [0..<x] rng)"
  have det: "list_all (\<lambda>c. c \<noteq> snare_color \<and> c \<noteq> hihat_color) ?cs"
    using clean by (simp add: column_def list_all_iff)
  moreover have "g ! y ! x \<in> set ?cs"
    using y by (simp add: column_def)
  ultimately obtain k where k: "k < step_samples"
    and big: "6 / 25 \<le> sum_list (map (\<lambda>c. det_note c ! k) ?cs)"
    using loud_column reg by blast
  let ?i = "x * step_samples + k"
  have "raw_buffer g rng ! ?i = fst (col_sum ?cs ?r) ! k"
    using x k by (rule raw_buffer_nth)
  also have "\<dots> = sum_list (map (\<lambda>c. det_note c ! k) ?cs)"
    using det k by (rule col_sum_nth_det)
  finally have v: "6 / 25 \<le> raw_buffer g rng ! ?i"
    using big by simp
  have "Suc x * step_samples \<le> GRID_SIZE * step_samples"
    using x by (intro mult_le_mono1) simp
  then have "?i < length (raw_buffer g rng)"
    using k windows_fit by simp
  then have "\<bar>raw_buffer g rng ! ?i\<bar> \<le> peak (raw_buffer g rng)"
    by (rule abs_le_peak)
  then show ?thesis using v by linarith
qed

lemma registered_without_noise:
  assumes "no_noise_cells g" "has_registered g"
  shows "noise_free_registered_column g"
proof -
  from assms(2) obtain y x where "y < GRID_SIZE" "x < GRID_SIZE" "COLOR_TO_IDX (g ! y ! x) \<noteq> None"
    by (auto simp: has_registered_def)
  then show ?thesis
    using assms(1) unfolding noise_free_registered_column_def no_noise_cells_def by blast
qed


lemma wf_kick_hihat_world: "wf_grid (grid (kick_hihat_world rng))"
  by (simp add: kick_hihat_world_def wf_grid_put wf_initial_grid)

lemma kick_hihat_world_column: "noise_free_registered_column (grid (kick_hihat_world rng))"
proof -
  let ?g = "grid_put (grid_put initial_grid 3 0 kick_color) 0 5 hihat_color"
  have wf1: "wf_grid (grid_put initial_grid 3 0 kick_color)"
    by (simp add: wf_grid_put wf_initial_grid)
  have cell: "?g ! y ! 0 = (if y = 3 then kick_color else (0, 0, 0))" if "y < GRID_SIZE" for y
    using that wf1 three_lt_GRID_SIZE(2)
    by (simp add: nth_grid_put wf_initial_grid nth_initial_grid)
  have clean: "\<forall>y < GRID_SIZE. ?g ! y ! 0 \<noteq> snare_color \<and> ?g ! y ! 0 \<noteq> hihat_color"
    using cell by (simp add: kick_color_def snare_color_def hihat_color_def)
  have reg: "COLOR_TO_IDX (?g ! 3 ! 0) \<noteq> None"
    using cell [OF three_lt_GRID_SIZE(1)] by (simp add: kick_color_def COLOR_TO_IDX_eq)
  have "noise_free_registered_column ?g"
    unfolding noise_free_registered_column_def
    using clean reg three_lt_GRID_SIZE(1,2) by blast
  then show ?thesis
    by (simp add: kick_hihat_world_def)
qed

lemma kick_hihat_world_has_noise:
  "grid (kick_hihat_world rng) ! 0 ! 5 = hihat_color"
  by (simp add: kick_hihat_world_def nth_grid_put wf_grid_put wf_initial_grid three_lt_GRID_SIZE)


lemma kick_spec_abs_le: "\<bar>kick_spec t\<bar> \<le> 4 / 5" if "0 \<le> t"
proof -
  have "exp (- 8 * t) \<le> 1" using that by simp
  moreover have "\<bar>sin (2 * pi * 55 * (1 - 0.5 * t) * t)\<bar> \<le> 1"
    by (rule abs_sin_le_one)
  ultimately have "exp (- 8 * t) * \<bar>sin (2 * pi * 55 * (1 - 0.5 * t) * t)\<bar> \<le> 1 * 1"
    by (intro mult_mono) simp_all
  then show ?thesis
    by (simp add: kick_spec_def abs_mult)
qed

lemma peak_le:
  assumes "xs \<noteq> []" "\<forall>i < length xs. \<bar>xs ! i\<bar> \<le> c"
  shows "peak xs \<le> c"
proof -
  have "\<forall>v \<in> set (map abs xs). v \<le> c"
    using assms(2) by (auto simp: in_set_conv_nth)
  then show ?thesis
    using assms(1) by (simp add: peak_def)
qed

lemma single_kick_peak: "peak (raw_buffer (grid kick_world) rng) \<le> 4 / 5"
proof (rule peak_le)
  show "raw_buffer (grid kick_world) rng \<noteq> []" by simp
  show "\<forall>i < length (raw_buffer (grid kick_world) rng). \<bar>raw_buffer (grid kick_world) rng ! i\<bar> \<le> 4 / 5"
  proof (intro allI impI)
    fix i assume "i < length (raw_buffer (grid kick_world) rng)"
    then have i: "i < 176400" by (simp add: buffer_length)
    have h: "3 < GRID_SIZE" "grid kick_world ! 3 ! 0 = kick_color"
      "unmatched_except (grid kick_world) [(3, 0)]"
      by (simp_all add: three_lt_GRID_SIZE nth_grid_put wf_initial_grid unmatched_grid_put
          unmatched_initial_grid)
    show "\<bar>raw_buffer (grid kick_world) rng ! i\<bar> \<le> 4 / 5"
    proof (cases "i < step_samples")
      case True
      have "raw_buffer (grid kick_world) rng ! i = kick_spec (real i / real SAMPLE_RATE)"
        using h True by (rule single_kick_buffer(1))
      then show ?thesis
        using kick_spec_abs_le [of "real i / real SAMPLE_RATE"] by simp
    next
      case False
      then have "raw_buffer (grid kick_world) rng ! i = 0"
        using single_kick_buffer(2) [OF h, of i rng] i by simp
      then show ?thesis by simp
    qed
  qed
qed



subsection \<open>Every cell's note in the rendered buffer\<close>

lemma col_sum_nth_cells:
  assumes "k < step_samples"
  shows "fst (col_sum cs rng) ! k
           = (\<Sum>j < length cs. fst (cell_note (cs ! j) (snd (col_sum (take j cs) rng))) ! k)"
  using assms
proof (induction cs arbitrary: rng)
  case Nil
  then show ?case by (simp add: np_zeros_def)
next
  case (Cons c cs)
  let ?r1 = "snd (cell_note c rng)"
  have tl: "fst (col_sum cs ?r1) ! k
              = (\<Sum>j < length cs. fst (cell_note (cs ! j) (snd (col_sum (take j cs) ?r1))) ! k)"
    using Cons by simp
  have hd: "fst (col_sum (c # cs) rng) ! k = fst (cell_note c rng) ! k + fst (col_sum cs ?r1) ! k"
    using Cons.prems by (simp add: split_def Let_def nth_vadd)
  have sh: "snd (col_sum (take (Suc j) (c # cs)) rng) = snd (col_sum (take j cs) ?r1)" for j
    by (simp add: split_def Let_def)
  have "(\<Sum>j < length (c # cs).
           fst (cell_note ((c # cs) ! j) (snd (col_sum (take j (c # cs)) rng))) ! k)
          = fst (cell_note c rng) ! k
            + (\<Sum>j < length cs. fst (cell_note (cs ! j) (snd (col_sum (take j cs) ?r1))) ! k)"
    by (simp add: sum.lessThan_Suc_shift sh del: sum.lessThan_Suc take_Suc_Cons)
  then show ?case
    using hd tl by simp
qed

lemma column_take:
  assumes "y \<le> GRID_SIZE"
  shows "take y (column g x [0..<GRID_SIZE]) = column g x [0..<y]"
  using assms by (simp add: column_def take_map take_upt)

lemma raw_buffer_nth_cells:
  assumes "x < GRID_SIZE" "k < step_samples"
  shows "raw_buffer g rng ! (x * step_samples + k)
           = (\<Sum>y < GRID_SIZE. note_of_cell g rng y x ! k)"
proof -
  let ?r = "snd (col_sums g [0..<x] rng)"
  let ?cs = "column g x [0..<GRID_SIZE]"
  have "raw_buffer g rng ! (x * step_samples + k) = fst (col_sum ?cs ?r) ! k"
    using assms by (rule raw_buffer_nth)
  also have "\<dots> = (\<Sum>j < length ?cs. fst (cell_note (?cs ! j) (snd (col_sum (take j ?cs) ?r))) ! k)"
    using assms(2) by (rule col_sum_nth_cells)
  also have "\<dots> = (\<Sum>y < GRID_SIZE. note_of_cell g rng y x ! k)"
  proof (rule sum.cong)
    show "{..<length ?cs} = {..<GRID_SIZE}" by (simp add: column_def)
  next
    fix y assume "y \<in> {..<GRID_SIZE}"
    then have y: "y < GRID_SIZE" by simp
    then have "take y ?cs = column g x [0..<y]"
      by (simp add: column_take)
    moreover have "?cs ! y = g ! y ! x"
      using y by (simp add: column_def)
    ultimately show "fst (cell_note (?cs ! y) (snd (col_sum (take y ?cs) ?r))) ! k
                       = note_of_cell g rng y x ! k"
      by (simp add: note_of_cell_def rng_at_def)
  qed
  finally show ?thesis .
qed


lemma loop_y_append:
  "loop_y n x (ys @ zs) st =
     (case loop_y n x ys st of Inl e \<Rightarrow> Inl e | Inr st' \<Rightarrow> loop_y n x zs st')"
  by (induction ys arbitrary: st) (simp_all split: sum.splits)

lemma loop_x_append:
  "loop_x n (xs @ zs) st =
     (case loop_x n xs st of Inl e \<Rightarrow> Inl e | Inr st' \<Rightarrow> loop_x n zs st')"
  by (induction xs arbitrary: st) (simp_all split: sum.splits)

lemma upt_split_at:
  assumes "x < n"
  shows "[0..<n] = [0..<x] @ x # [Suc x..<n]"
proof -
  have "[0..<x + (n - x)] = [0..<x] @ [x..<x + (n - x)]"
    by (rule upt_add_eq_append) simp
  then have "[0..<n] = [0..<x] @ [x..<n]"
    using assms by simp
  then show ?thesis
    using assms by (simp add: upt_conv_Cons)
qed

lemma cell_note_registered:
  "COLOR_TO_IDX c = Some inst_idx \<Longrightarrow> cell_note c rng = synth_note inst_idx note_times rng"
  by (simp add: cell_note_def)

lemma render_trace:
  assumes wf: "wf_grid (grid w)" and x: "x < GRID_SIZE" and y: "y < GRID_SIZE"
  shows "\<exists>a1 w1 a2 w2 a3 w3 a4 w4.
           loop_x step_samples [0..<x] (np_zeros (LOOP_LEN_SEC * SAMPLE_RATE), w) = Inr (a1, w1)
         \<and> loop_y step_samples x [0..<y] (a1, w1) = Inr (a2, w2)
         \<and> cell_body step_samples x y (a2, w2) = Inr (a3, w3)
         \<and> loop_y step_samples x [Suc y..<GRID_SIZE] (a3, w3) = Inr (a4, w4)
         \<and> loop_x step_samples [Suc x..<GRID_SIZE] (a4, w4) = render_raw w
         \<and> np_random w2 = rng_at (grid w) (np_random w) x y
         \<and> length a2 = 176400 \<and> length a3 = 176400
         \<and> (\<forall>i < 176400.
               a3 ! i = (if x * step_samples \<le> i \<and> i < x * step_samples + step_samples
                         then a2 ! i + note_of_cell (grid w) (np_random w) y x ! (i - x * step_samples)
                         else a2 ! i))"
proof -
  let ?N = "LOOP_LEN_SEC * SAMPLE_RATE"
  let ?g = "grid w" and ?rng = "np_random w"
  have fit0: "GRID_SIZE * step_samples \<le> length (np_zeros ?N)"
    using windows_fit by (simp add: np_zeros_def)
  have "x \<le> GRID_SIZE" using x by simp
  from loop_x_upt [OF wf this fit0] obtain a1 where
    r1: "loop_x step_samples [0..<x] (np_zeros ?N, w)
           = Inr (a1, w\<lparr>np_random := snd (col_sums ?g [0..<x] ?rng)\<rparr>)"
    and l1: "length a1 = ?N"
    by (auto simp: np_zeros_def)
  let ?w1 = "w\<lparr>np_random := snd (col_sums ?g [0..<x] ?rng)\<rparr>"
  have "Suc x * step_samples \<le> GRID_SIZE * step_samples"
    using x by (intro mult_le_mono1) simp
  then have fit: "x * step_samples + step_samples \<le> ?N"
    using windows_fit by simp
  have rows: "list_all (\<lambda>y. y < GRID_SIZE) [0..<y]"
    using y by (simp add: list_all_iff)
  let ?a2 = "window_add a1 (x * step_samples) (fst (col_sum (column ?g x [0..<y]) (np_random ?w1)))"
  let ?w2 = "?w1\<lparr>np_random := snd (col_sum (column ?g x [0..<y]) (np_random ?w1))\<rparr>"
  have r2: "loop_y step_samples x [0..<y] (a1, ?w1) = Inr (?a2, ?w2)"
    using loop_y_eq [of ?w1 x "[0..<y]" a1] wf x rows fit l1 by simp
  have l2: "length ?a2 = ?N"
    using fit l1 by (simp add: length_window_add)
  have rng2: "np_random ?w2 = rng_at ?g ?rng x y"
    by (simp add: rng_at_def)
  let ?note = "note_of_cell ?g ?rng y x"
  have nt: "fst (cell_note (grid ?w2 ! y ! x) (np_random ?w2)) = ?note"
    by (simp add: note_of_cell_def rng_at_def)
  let ?a3 = "window_add ?a2 (x * step_samples) ?note"
  let ?w3 = "?w2\<lparr>np_random := snd (cell_note (grid ?w2 ! y ! x) (np_random ?w2))\<rparr>"
  have r3: "cell_body step_samples x y (?a2, ?w2) = Inr (?a3, ?w3)"
    using cell_body_eq [of ?w2 x y ?a2] wf x y fit l2 nt by simp
  have ln: "length ?note = step_samples"
    by (simp add: note_of_cell_def)
  have l3: "length ?a3 = ?N"
    using fit l2 ln by (simp add: length_window_add)
  have n3: "\<forall>i < 176400. ?a3 ! i =
              (if x * step_samples \<le> i \<and> i < x * step_samples + step_samples
               then ?a2 ! i + ?note ! (i - x * step_samples) else ?a2 ! i)"
    using fit l2 ln by (simp add: nth_window_add buffer_length)
  have whole: "render_raw w =
      (case loop_y step_samples x [Suc y..<GRID_SIZE] (?a3, ?w3) of
         Inl e \<Rightarrow> Inl e
       | Inr st \<Rightarrow> loop_x step_samples [Suc x..<GRID_SIZE] st)"
  proof -
    have "render_raw w = loop_x step_samples ([0..<x] @ x # [Suc x..<GRID_SIZE]) (np_zeros ?N, w)"
      using upt_split_at [OF x] by (simp add: render_raw_def)
    also have "\<dots> = loop_x step_samples (x # [Suc x..<GRID_SIZE]) (a1, ?w1)"
      by (simp only: loop_x_append r1 sum.case)
    also have "\<dots> = (case loop_y step_samples x ([0..<y] @ y # [Suc y..<GRID_SIZE]) (a1, ?w1) of
                        Inl e \<Rightarrow> Inl e
                      | Inr st \<Rightarrow> loop_x step_samples [Suc x..<GRID_SIZE] st)"
      using upt_split_at [OF y] by simp
    also have "loop_y step_samples x ([0..<y] @ y # [Suc y..<GRID_SIZE]) (a1, ?w1)
                 = loop_y step_samples x (y # [Suc y..<GRID_SIZE]) (?a2, ?w2)"
      by (simp only: loop_y_append r2 sum.case)
    also have "\<dots> = loop_y step_samples x [Suc y..<GRID_SIZE] (?a3, ?w3)"
      by (simp only: loop_y.simps r3 sum.case)
    finally show ?thesis .
  qed
  obtain raw w' where fin: "render_raw w = Inr (raw, w')"
    using render_raw_eq [OF wf] by blast
  then obtain a4 w4 where
    r4: "loop_y step_samples x [Suc y..<GRID_SIZE] (?a3, ?w3) = Inr (a4, w4)"
    and r5: "loop_x step_samples [Suc x..<GRID_SIZE] (a4, w4) = render_raw w"
    using whole by (auto split: sum.splits)
  show ?thesis
    using r1 r2 r3 r4 r5 rng2 l2 l3 n3 by (simp only: buffer_length) blast
qed


text \<open>
  C4. For every well-shaped grid, \<open>grid_to_audio\<close> works with
  \<open>step_samples = floor (SAMPLE_RATE * LOOP_LEN_SEC / GRID_SIZE) = 2756\<close>. The buffer its
  loops leave has 176400 samples; the window of every column lies inside it; sample
  \<open>x * step_samples + k\<close> is the sum over the rows of sample \<open>k\<close> of the notes of the cells
  of column \<open>x\<close>, a registered cell's note being its instrument's \<open>synth_note\<close> over the
  \<open>step_samples\<close> local times and an unregistered cell's being zero; the samples past the
  last window are zero; and the returned buffer is this one divided by its peak plus
  \<open>1/10^6\<close>. Moreover the loops reach every cell \<open>(y, x)\<close>, and the loop body there
  returns the buffer with the cell's note added at the indices from \<open>x * step_samples\<close>
  up to but excluding \<open>x * step_samples + step_samples\<close>, every other sample unchanged
  and the length kept, before the remaining iterations complete the render.
\<close>

theorem render_adds_every_note:
  assumes "wf_grid (grid w)"
  shows "step_samples = SAMPLE_RATE * LOOP_LEN_SEC div GRID_SIZE \<and> step_samples = 2756
    \<and> (\<exists>raw a w'. render_raw w = Inr (raw, w') \<and> grid_to_audio w = Inr (a, w')
          \<and> length raw = 176400 \<and> length a = 176400
          \<and> (\<forall>x < GRID_SIZE. x * step_samples + step_samples \<le> length raw)
          \<and> (\<forall>x < GRID_SIZE. \<forall>k < step_samples.
                raw ! (x * step_samples + k)
                  = (\<Sum>y < GRID_SIZE. note_of_cell (grid w) (np_random w) y x ! k))
          \<and> (\<forall>i. GRID_SIZE * step_samples \<le> i \<and> i < length raw \<longrightarrow> raw ! i = 0)
          \<and> (\<forall>i < length raw. a ! i = raw ! i / (peak raw + 1 / 10 ^ 6)))
    \<and> (\<forall>y < GRID_SIZE. \<forall>x < GRID_SIZE.
          length (note_of_cell (grid w) (np_random w) y x) = step_samples
          \<and> (\<forall>inst_idx. COLOR_TO_IDX (grid w ! y ! x) = Some inst_idx \<longrightarrow>
                note_of_cell (grid w) (np_random w) y x
                  = fst (synth_note inst_idx
                           (np_linspace_noend 0 (real step_samples / real SAMPLE_RATE) step_samples)
                           (rng_at (grid w) (np_random w) x y)))
          \<and> (COLOR_TO_IDX (grid w ! y ! x) = None \<longrightarrow>
                note_of_cell (grid w) (np_random w) y x = np_zeros step_samples)
          \<and> (\<exists>a1 w1 a2 w2 a3 w3 a4 w4.
                loop_x step_samples [0..<x] (np_zeros (LOOP_LEN_SEC * SAMPLE_RATE), w) = Inr (a1, w1)
              \<and> loop_y step_samples x [0..<y] (a1, w1) = Inr (a2, w2)
              \<and> cell_body step_samples x y (a2, w2) = Inr (a3, w3)
              \<and> loop_y step_samples x [Suc y..<GRID_SIZE] (a3, w3) = Inr (a4, w4)
              \<and> loop_x step_samples [Suc x..<GRID_SIZE] (a4, w4) = render_raw w
              \<and> np_random w2 = rng_at (grid w) (np_random w) x y
              \<and> length a2 = 176400 \<and> length a3 = 176400
              \<and> (\<forall>i < 176400.
                    a3 ! i = (if x * step_samples \<le> i \<and> i < x * step_samples + step_samples
                              then a2 ! i
                                   + note_of_cell (grid w) (np_random w) y x ! (i - x * step_samples)
                              else a2 ! i))))"
proof (intro conjI)
  show "step_samples = SAMPLE_RATE * LOOP_LEN_SEC div GRID_SIZE"
    by (simp add: step_samples_def)
  show "step_samples = 2756"
    by (rule step_samples_eq)
next
  let ?raw = "raw_buffer (grid w) (np_random w)"
  let ?a = "map (\<lambda>a. a / (peak ?raw + 1 / 10 ^ 6)) ?raw"
  let ?w' = "w\<lparr>np_random := rng_after (grid w) (np_random w)\<rparr>"
  have r: "render_raw w = Inr (?raw, ?w')"
    using assms by (rule render_raw_eq)
  have g: "grid_to_audio w = Inr (?a, ?w')"
    using assms by (rule grid_to_audio_eq)
  have l: "length ?raw = 176400" "length ?a = 176400"
    by (simp_all add: buffer_length)
  have fit: "\<forall>x < GRID_SIZE. x * step_samples + step_samples \<le> length ?raw"
  proof (intro allI impI)
    fix x assume "x < GRID_SIZE"
    then have "Suc x * step_samples \<le> GRID_SIZE * step_samples"
      by (intro mult_le_mono1) simp
    then show "x * step_samples + step_samples \<le> length ?raw"
      using windows_fit by simp
  qed
  have cells: "\<forall>x < GRID_SIZE. \<forall>k < step_samples.
                 ?raw ! (x * step_samples + k)
                   = (\<Sum>y < GRID_SIZE. note_of_cell (grid w) (np_random w) y x ! k)"
    by (simp add: raw_buffer_nth_cells)
  have tail: "\<forall>i. GRID_SIZE * step_samples \<le> i \<and> i < length ?raw \<longrightarrow> ?raw ! i = 0"
    by (simp add: raw_buffer_tail)
  have norm: "\<forall>i < length ?raw. ?a ! i = ?raw ! i / (peak ?raw + 1 / 10 ^ 6)"
    by simp
  show "\<exists>raw a w'. render_raw w = Inr (raw, w') \<and> grid_to_audio w = Inr (a, w')
          \<and> length raw = 176400 \<and> length a = 176400
          \<and> (\<forall>x < GRID_SIZE. x * step_samples + step_samples \<le> length raw)
          \<and> (\<forall>x < GRID_SIZE. \<forall>k < step_samples.
                raw ! (x * step_samples + k)
                  = (\<Sum>y < GRID_SIZE. note_of_cell (grid w) (np_random w) y x ! k))
          \<and> (\<forall>i. GRID_SIZE * step_samples \<le> i \<and> i < length raw \<longrightarrow> raw ! i = 0)
          \<and> (\<forall>i < length raw. a ! i = raw ! i / (peak raw + 1 / 10 ^ 6))"
    using r g l fit cells tail norm by blast
next
  show "\<forall>y < GRID_SIZE. \<forall>x < GRID_SIZE.
          length (note_of_cell (grid w) (np_random w) y x) = step_samples
          \<and> (\<forall>inst_idx. COLOR_TO_IDX (grid w ! y ! x) = Some inst_idx \<longrightarrow>
                note_of_cell (grid w) (np_random w) y x
                  = fst (synth_note inst_idx
                           (np_linspace_noend 0 (real step_samples / real SAMPLE_RATE) step_samples)
                           (rng_at (grid w) (np_random w) x y)))
          \<and> (COLOR_TO_IDX (grid w ! y ! x) = None \<longrightarrow>
                note_of_cell (grid w) (np_random w) y x = np_zeros step_samples)
          \<and> (\<exists>a1 w1 a2 w2 a3 w3 a4 w4.
                loop_x step_samples [0..<x] (np_zeros (LOOP_LEN_SEC * SAMPLE_RATE), w) = Inr (a1, w1)
              \<and> loop_y step_samples x [0..<y] (a1, w1) = Inr (a2, w2)
              \<and> cell_body step_samples x y (a2, w2) = Inr (a3, w3)
              \<and> loop_y step_samples x [Suc y..<GRID_SIZE] (a3, w3) = Inr (a4, w4)
              \<and> loop_x step_samples [Suc x..<GRID_SIZE] (a4, w4) = render_raw w
              \<and> np_random w2 = rng_at (grid w) (np_random w) x y
              \<and> length a2 = 176400 \<and> length a3 = 176400
              \<and> (\<forall>i < 176400.
                    a3 ! i = (if x * step_samples \<le> i \<and> i < x * step_samples + step_samples
                              then a2 ! i
                                   + note_of_cell (grid w) (np_random w) y x ! (i - x * step_samples)
                              else a2 ! i)))"
  proof (intro allI impI conjI)
    fix y x assume y: "y < GRID_SIZE" and x: "x < GRID_SIZE"
    show "length (note_of_cell (grid w) (np_random w) y x) = step_samples"
      by (simp add: note_of_cell_def)
    show "note_of_cell (grid w) (np_random w) y x
            = fst (synth_note inst_idx
                     (np_linspace_noend 0 (real step_samples / real SAMPLE_RATE) step_samples)
                     (rng_at (grid w) (np_random w) x y))"
      if "COLOR_TO_IDX (grid w ! y ! x) = Some inst_idx" for inst_idx
      using that by (simp add: note_of_cell_def cell_note_registered note_times_def)
    show "note_of_cell (grid w) (np_random w) y x = np_zeros step_samples"
      if "COLOR_TO_IDX (grid w ! y ! x) = None"
      using that by (simp add: note_of_cell_def cell_note_unmatched)
    show "\<exists>a1 w1 a2 w2 a3 w3 a4 w4.
                loop_x step_samples [0..<x] (np_zeros (LOOP_LEN_SEC * SAMPLE_RATE), w) = Inr (a1, w1)
              \<and> loop_y step_samples x [0..<y] (a1, w1) = Inr (a2, w2)
              \<and> cell_body step_samples x y (a2, w2) = Inr (a3, w3)
              \<and> loop_y step_samples x [Suc y..<GRID_SIZE] (a3, w3) = Inr (a4, w4)
              \<and> loop_x step_samples [Suc x..<GRID_SIZE] (a4, w4) = render_raw w
              \<and> np_random w2 = rng_at (grid w) (np_random w) x y
              \<and> length a2 = 176400 \<and> length a3 = 176400
              \<and> (\<forall>i < 176400.
                    a3 ! i = (if x * step_samples \<le> i \<and> i < x * step_samples + step_samples
                              then a2 ! i
                                   + note_of_cell (grid w) (np_random w) y x ! (i - x * step_samples)
                              else a2 ! i))"
      using assms x y by (rule render_trace)
  qed
qed


lemma kick_world_sample_100:
  "6 / 25 \<le> raw_buffer (grid kick_world) rng ! (0 * step_samples + 100)"
proof -
  have h: "3 < GRID_SIZE" "grid kick_world ! 3 ! 0 = kick_color"
    "unmatched_except (grid kick_world) [(3, 0)]"
    by (simp_all add: three_lt_GRID_SIZE nth_grid_put wf_initial_grid unmatched_grid_put
        unmatched_initial_grid)
  have "raw_buffer (grid kick_world) rng ! 100 = kick_spec (real 100 / real SAMPLE_RATE)"
    using h step_samples_gt(3) by (rule single_kick_buffer(1))
  also have "\<dots> = kick_spec (1 / 441)"
    by (simp add: SAMPLE_RATE_def)
  finally show ?thesis
    using kick_at_100 by simp
qed

theorem render_adds_every_note_witness:
  "wf_grid (grid kick_world)
   \<and> COLOR_TO_IDX (grid kick_world ! 3 ! 0) = Some 0
   \<and> step_samples = 2756
   \<and> (\<exists>raw a w'. render_raw kick_world = Inr (raw, w') \<and> grid_to_audio kick_world = Inr (a, w')
          \<and> length raw = 176400
          \<and> raw ! (0 * step_samples + 100)
               = (\<Sum>y < GRID_SIZE. note_of_cell (grid kick_world) (np_random kick_world) y 0 ! 100)
          \<and> 6 / 25 \<le> raw ! (0 * step_samples + 100)
          \<and> a ! (0 * step_samples + 100) = raw ! (0 * step_samples + 100) / (peak raw + 1 / 10 ^ 6))
   \<and> note_of_cell (grid kick_world) (np_random kick_world) 3 0
        = fst (synth_note 0
                 (np_linspace_noend 0 (real step_samples / real SAMPLE_RATE) step_samples)
                 (rng_at (grid kick_world) (np_random kick_world) 0 3))"
proof -
  have h: "wf_grid (grid kick_world)"
    by (simp add: wf_grid_put wf_initial_grid)
  have c: "COLOR_TO_IDX (grid kick_world ! 3 ! 0) = Some 0"
    by (simp add: nth_grid_put wf_initial_grid three_lt_GRID_SIZE kick_color_def COLOR_TO_IDX_eq)
  note t = render_adds_every_note [OF h]
  from t obtain raw a w' where
    f: "render_raw kick_world = Inr (raw, w')" "grid_to_audio kick_world = Inr (a, w')"
      "length raw = 176400"
      "\<forall>x < GRID_SIZE. \<forall>k < step_samples.
         raw ! (x * step_samples + k)
           = (\<Sum>y < GRID_SIZE. note_of_cell (grid kick_world) (np_random kick_world) y x ! k)"
      "\<forall>i < length raw. a ! i = raw ! i / (peak raw + 1 / 10 ^ 6)"
    by blast
  have s: "raw ! (0 * step_samples + 100)
             = (\<Sum>y < GRID_SIZE. note_of_cell (grid kick_world) (np_random kick_world) y 0 ! 100)"
    using f(4) three_lt_GRID_SIZE(2) step_samples_gt(3) by blast
  have "raw = raw_buffer (grid kick_world) (np_random kick_world)"
    using f(1) render_raw_eq [OF h] by simp
  then have big: "6 / 25 \<le> raw ! (0 * step_samples + 100)"
    using kick_world_sample_100 by simp
  have n: "a ! (0 * step_samples + 100) = raw ! (0 * step_samples + 100) / (peak raw + 1 / 10 ^ 6)"
    using f(3,5) by simp
  have cell: "note_of_cell (grid kick_world) (np_random kick_world) 3 0
        = fst (synth_note 0
                 (np_linspace_noend 0 (real step_samples / real SAMPLE_RATE) step_samples)
                 (rng_at (grid kick_world) (np_random kick_world) 0 3))"
    using t c three_lt_GRID_SIZE(1,2) by blast
  show ?thesis
    using h c step_samples_eq f(1-3) s big n cell by blast
qed

end
